theory Spec2Isabelle
  imports Complex_Main "HOL-Library.Word" "HOL-Library.AList" "HOL-Library.Multiset"
begin


section \<open>Go values used by the engine\<close>

text \<open>
  \<open>int64\<close> and \<open>int32\<close> are machine words: \<open>+\<close>, \<open>-\<close> and \<open>*\<close> wrap around as in Go,
  \<open>sint\<close> reads the two's complement value, \<open><s\<close> and \<open>\<le>s\<close> are the signed comparisons.
\<close>

type_synonym int64 = "64 word"
type_synonym int32 = "32 word"

text \<open>
  \<open>float64\<close>: only comparisons and \<open>math.IsNaN\<close> are applied to prices by the code under
  study, so a price is either \<open>NaN\<close> or a number. Every comparison with \<open>NaN\<close> is false,
  as in IEEE 754. Infinities are not represented: under comparisons alone they behave as
  very large numbers.
\<close>

datatype float64 = NaN | Fin real

fun IsNaN :: "float64 \<Rightarrow> bool" where
  "IsNaN NaN = True"
| "IsNaN (Fin _) = False"

fun flt_lt :: "float64 \<Rightarrow> float64 \<Rightarrow> bool" where
  "flt_lt (Fin a) (Fin b) = (a < b)"
| "flt_lt _ _ = False"

fun flt_le :: "float64 \<Rightarrow> float64 \<Rightarrow> bool" where
  "flt_le (Fin a) (Fin b) = (a \<le> b)"
| "flt_le _ _ = False"

fun flt_eq :: "float64 \<Rightarrow> float64 \<Rightarrow> bool" where
  "flt_eq (Fin a) (Fin b) = (a = b)"
| "flt_eq _ _ = False"

definition flt_gt :: "float64 \<Rightarrow> float64 \<Rightarrow> bool" where
  "flt_gt a b = flt_lt b a"

definition flt_ge :: "float64 \<Rightarrow> float64 \<Rightarrow> bool" where
  "flt_ge a b = flt_le b a"

text \<open>
  \<open>*time.Location\<close>: the identity of the pointed-to object, \<open>locAddr\<close>, and the zone
  data that the time package reads through the pointer: the offset east of UTC, in
  seconds, in force before the first transition, and the transitions in ascending order
  of their instant (Unix seconds), each with the offset in force from that instant on.
  The table stands for the transitions of the zone over the period of a run, whether the
  package reads them from the zone file or computes them from the rule of the zone.
  \<open>time.UTC\<close> has no transition and the offset 0; a location made by \<open>time.FixedZone\<close> or
  by parsing a numeric offset has no transition either, and every call makes a new
  object, whose address is the first argument of \<open>FixedZone\<close> below.
\<close>

record Location =
  locAddr :: nat
  zoneFirst :: int
  zoneTx :: "(int \<times> int) list"

definition UTC :: Location where
  "UTC = \<lparr>locAddr = 0, zoneFirst = 0, zoneTx = []\<rparr>"

definition FixedZone :: "nat \<Rightarrow> int \<Rightarrow> Location" where
  "FixedZone a offset = \<lparr>locAddr = a, zoneFirst = offset, zoneTx = []\<rparr>"

text \<open>
  \<open>time.Time\<close>: an instant, counted in nanoseconds since the Unix epoch, together with its
  location pointer. No monotonic clock reading is carried: the worker and the runtime
  modelled here take their times from the events they receive and from \<open>Add\<close>,
  \<open>AddDate\<close> and \<open>time.Date\<close>, and do not call \<open>time.Now\<close>. \<open>Before\<close>, \<open>After\<close> and \<open>Unix\<close>
  look at the instant only. The instant is an unbounded integer: the range limits of
  Go's representation are not modelled.
\<close>

record GoTime =
  nsec :: int
  loc :: Location

text \<open>
  Go's \<open>==\<close> on \<open>time.Time\<close>, which is also the equality of map keys: the same instant
  and the same location pointer. Two times are \<open>==\<close> exactly when their keys are equal.
\<close>

definition timeKey :: "GoTime \<Rightarrow> int \<times> nat" where
  "timeKey t = (nsec t, locAddr (loc t))"

type_synonym Duration = int64

definition Millisecond :: Duration where
  "Millisecond = 1000000"

definition Microsecond :: Duration where
  "Microsecond = 1000"

definition Before :: "GoTime \<Rightarrow> GoTime \<Rightarrow> bool" where
  "Before t u = (nsec t < nsec u)"

definition After :: "GoTime \<Rightarrow> GoTime \<Rightarrow> bool" where
  "After t u = (nsec t > nsec u)"

definition Unix :: "GoTime \<Rightarrow> int" where
  "Unix t = nsec t div 1000000000"

definition Add :: "GoTime \<Rightarrow> Duration \<Rightarrow> GoTime" where
  "Add t d = t\<lparr>nsec := nsec t + sint d\<rparr>"

text \<open>
  \<open>Location.lookup\<close>: the offset in force at the instant \<open>sec\<close> and the bounds
  \<open>[zstart, zend)\<close> of the period in which it is in force; \<open>alpha\<close> and \<open>omega\<close> are the
  bounds that the time package uses for the beginning and the end of time. The package
  searches the sorted table by bisection; the walk below finds the same entry.
\<close>

definition alpha :: int where
  "alpha = - (2 ^ 63)"

definition omega :: int where
  "omega = 2 ^ 63 - 1"

fun lookupTx :: "(int \<times> int) list \<Rightarrow> int \<Rightarrow> int \<times> int \<times> int \<Rightarrow> int \<times> int \<times> int" where
  "lookupTx [] sec cur = cur"
| "lookupTx ((w, off) # tx) sec cur =
     (if sec < w then (fst cur, fst (snd cur), w) else lookupTx tx sec (off, w, omega))"

definition lookup :: "Location \<Rightarrow> int \<Rightarrow> int \<times> int \<times> int" where
  "lookup l sec = lookupTx (zoneTx l) sec (zoneFirst l, alpha, omega)"

text \<open>
  The wall clock reading of \<open>t\<close> in its location (\<open>t.abs()\<close>), in seconds and in
  nanoseconds since 1970-01-01 00:00:00 of that wall clock.
\<close>

definition localSec :: "GoTime \<Rightarrow> int" where
  "localSec t = Unix t + fst (lookup (loc t) (Unix t))"

definition dayNs :: int where
  "dayNs = 86400 * 1000000000"

definition localNs :: "GoTime \<Rightarrow> int" where
  "localNs t = nsec t + fst (lookup (loc t) (Unix t)) * 1000000000"

text \<open>
  The last step of \<open>time.Date\<close>: the instant of a wall clock reading in a location. The
  reading is first looked up as if it were an instant; when the instant so found lies
  outside the period of the offset used, the offset in force at that instant is taken
  instead (releases of Go before 1.17 took the offset of the neighbouring period, which
  is the same offset unless two transitions are less than an offset apart). A reading
  that the wall clock skips or shows twice gets one of the two candidate instants.
\<close>

definition fromCivil :: "Location \<Rightarrow> int \<Rightarrow> int" where
  "fromCivil l unix =
     (case lookup l unix of
        (offset, zstart, zend) \<Rightarrow>
          (if offset \<noteq> 0 then
             (let u = unix - offset;
                  offset' = (if u < zstart \<or> u \<ge> zend then fst (lookup l u) else offset)
              in unix - offset')
           else unix))"

text \<open>
  \<open>time.Date(t.Year(), t.Month(), t.Day(), h, m, s, 0, t.Location())\<close>: the wall clock
  reading \<open>h:m:s\<close> on the calendar day of \<open>t\<close>, in the location of \<open>t\<close>. \<open>time.Date\<close>
  normalises \<open>h\<close>, \<open>m\<close> and \<open>s\<close> outside their ranges by carrying over, which is the
  arithmetic below.
\<close>

definition DateOnDayOf :: "GoTime \<Rightarrow> int \<Rightarrow> int \<Rightarrow> int \<Rightarrow> GoTime" where
  "DateOnDayOf t h m s =
     \<lparr>nsec = fromCivil (loc t) ((localSec t div 86400) * 86400 + h * 3600 + m * 60 + s)
               * 1000000000,
      loc = loc t\<rparr>"

definition Hour_of :: "GoTime \<Rightarrow> int" where
  "Hour_of t = (localNs t mod dayNs) div (3600 * 1000000000)"

definition Minute_of :: "GoTime \<Rightarrow> int" where
  "Minute_of t = ((localNs t mod dayNs) mod (3600 * 1000000000)) div (60 * 1000000000)"

text \<open>
  The proleptic Gregorian calendar, for \<open>AddDate\<close>: the day number of a civil date and
  the civil date of a day number (days since 1970-01-01).
\<close>

definition days_from_civil :: "int \<Rightarrow> int \<Rightarrow> int \<Rightarrow> int" where
  "days_from_civil y m d =
     (let y' = (if m \<le> 2 then y - 1 else y);
          era = y' div 400;
          yoe = y' - era * 400;
          doy = (153 * (if m > 2 then m - 3 else m + 9) + 2) div 5 + d - 1;
          doe = yoe * 365 + yoe div 4 - yoe div 100 + doy
      in era * 146097 + doe - 719468)"

definition civil_from_days :: "int \<Rightarrow> int \<times> int \<times> int" where
  "civil_from_days z =
     (let z' = z + 719468;
          era = z' div 146097;
          doe = z' - era * 146097;
          yoe = (doe - doe div 1460 + doe div 36524 - doe div 146096) div 365;
          doy = doe - (365 * yoe + yoe div 4 - yoe div 100);
          mp = (5 * doy + 2) div 153;
          d = doy - (153 * mp + 2) div 5 + 1;
          m = (if mp < 10 then mp + 3 else mp - 9)
      in ((if m \<le> 2 then yoe + era * 400 + 1 else yoe + era * 400), m, d))"

text \<open>
  \<open>t.AddDate(0, 0, n)\<close> is \<open>time.Date\<close> at the wall clock reading of \<open>t\<close> with \<open>n\<close> added
  to the day: the same reading \<open>n\<close> civil days later, in the location of \<open>t\<close>, with the
  nanoseconds of \<open>t\<close>.
\<close>

definition AddDays :: "GoTime \<Rightarrow> int \<Rightarrow> GoTime" where
  "AddDays t n =
     \<lparr>nsec = fromCivil (loc t) (localSec t + n * 86400) * 1000000000
               + nsec t mod 1000000000,
      loc = loc t\<rparr>"

text \<open>
  \<open>t.AddDate(n, 0, 0)\<close>: the same wall clock reading on the civil date \<open>n\<close> years later; a
  day that does not exist in the target year (29 February) runs over into March, as
  \<open>time.Date\<close> normalises it.
\<close>

definition AddYears :: "GoTime \<Rightarrow> int \<Rightarrow> GoTime" where
  "AddYears t n =
     (case civil_from_days (localSec t div 86400) of
        (y, m, d) \<Rightarrow>
          \<lparr>nsec = fromCivil (loc t) (days_from_civil (y + n) m d * 86400
                                       + localSec t mod 86400) * 1000000000
                    + nsec t mod 1000000000,
           loc = loc t\<rparr>)"

text \<open>A location whose offset never changes: UTC, a fixed zone.\<close>

definition fixedZone :: "Location \<Rightarrow> bool" where
  "fixedZone l = (\<forall>(w, off)\<in>set (zoneTx l). off = zoneFirst l)"

section \<open>Orders, instruments and market data\<close>

text \<open>
  The order, instrument, tick and candle types are declared in files of the repository
  that are not among the sources; the records below have the fields that the broker and
  the strategy runtime read. \<open>OrderSide\<close>, \<open>OrderType\<close> and \<open>OrderTIF\<close> are string types in
  Go, so each has a constructor for a value outside the named constants (the
  \<open>default\<close> branches of the code handle these).
\<close>

datatype OrderSide = OrderBuy | OrderSell | OtherSide string

datatype OrderType =
  MarketOrder | LimitOrder | StopOrder | LimitOnClose | LimitOnOpen
  | MarketOnOpen | MarketOnClose | OtherType string

datatype OrderTIF = GTCTIF | DayTIF | AuctionTIF | OtherTIF string

datatype OrderState =
  NewOrder | ConfirmedOrder | PartialFilledOrder | FilledOrder | CanceledOrder | RejectedOrder

record TimeOfDay =
  Hour :: int
  Minute :: int
  Second :: int

record Exchange =
  MarketOpenTime :: TimeOfDay
  MarketCloseTime :: TimeOfDay

text \<open>
  Instruments are handled through pointers; \<open>InstrAddr\<close> is the identity of the pointed-to
  object, compared where the code compares the pointers themselves.
\<close>

record Instrument =
  InstrAddr :: nat
  Symbol :: string
  Exchange :: Exchange

text \<open>
  \<open>OrderValid\<close> is the result of the method \<open>isValid()\<close>, \<open>TickValid\<close> of \<open>IsValid()\<close>,
  \<open>TickHasTrade\<close> of \<open>HasTrade()\<close>, \<open>TickHasQuote\<close> of \<open>HasQuote()\<close>, \<open>CandleValid\<close> of
  \<open>isValid()\<close>, \<open>CandleIsOpening\<close> of \<open>isOpening()\<close> and \<open>CandleIsClosing\<close> of
  \<open>isClosingForTimeFrame\<close> at the time frame of the event that carries the candle. The
  bodies of these methods are not among the sources, so the value carries their result
  and every theorem holds whatever they compute.
\<close>

record Order =
  Id :: string
  Side :: OrderSide
  Qty :: int64
  Ticker :: Instrument
  Price :: float64
  State :: OrderState
  ExecQty :: int64
  Type :: OrderType
  Tif :: OrderTIF
  Time :: GoTime
  OrderValid :: bool

record Tick =
  Datetime :: GoTime
  Ticker :: Instrument
  LastPrice :: float64
  LastSize :: int64
  BidPrice :: float64
  BidSize :: int64
  AskPrice :: float64
  AskSize :: int64
  IsOpening :: bool
  IsClosing :: bool
  TickHasTrade :: bool
  TickHasQuote :: bool
  TickValid :: bool

record Candle =
  Datetime :: GoTime
  Ticker :: Instrument
  Open :: float64
  High :: float64
  Low :: float64
  Close :: float64
  CandleValid :: bool
  CandleIsOpening :: bool
  CandleIsClosing :: bool

text \<open>The reasons carried by reject events (the message texts of the code).\<close>

datatype Reason =
  ReasonOrderNotValid | ReasonIdExists | ReasonNotFound | ReasonAlreadyCanceled
  | ReasonNotConfirmedYet | ReasonAlreadyFilled | ReasonBadReplacePrice

text \<open>
  Events. Every event starts with its \<open>BaseEvent\<close>: the simulated time and the
  instrument. History events carry arrays of pointers, \<open>None\<close> being \<open>nil\<close>.
\<close>

datatype event =
    NewOrderEvent GoTime Instrument Order
  | OrderCancelRequestEvent GoTime Instrument string
  | OrderReplaceRequestEvent GoTime Instrument string float64
  | NewTickEvent GoTime Instrument Tick
  | CandleOpenEvent GoTime Instrument GoTime float64 string
  | CandleCloseEvent GoTime Instrument Candle string
  | OrderConfirmationEvent GoTime Instrument string
  | OrderCancelRejectEvent GoTime Instrument string Reason
  | OrderReplaceRejectEvent GoTime Instrument string Reason
  | OrderCancelEvent GoTime Instrument string
  | OrderReplacedEvent GoTime Instrument string float64
  | OrderFillEvent GoTime Instrument string float64 int64
  | OrderRejectedEvent GoTime Instrument string Reason
  | TickHistoryEvent GoTime Instrument "Tick option list"
  | CandlesHistoryEvent GoTime Instrument "Candle option list"
  | EndOfDataEvent GoTime Instrument

fun getTime :: "event \<Rightarrow> GoTime" where
  "getTime (NewOrderEvent t _ _) = t"
| "getTime (OrderCancelRequestEvent t _ _) = t"
| "getTime (OrderReplaceRequestEvent t _ _ _) = t"
| "getTime (NewTickEvent t _ _) = t"
| "getTime (CandleOpenEvent t _ _ _ _) = t"
| "getTime (CandleCloseEvent t _ _ _) = t"
| "getTime (OrderConfirmationEvent t _ _) = t"
| "getTime (OrderCancelRejectEvent t _ _ _) = t"
| "getTime (OrderReplaceRejectEvent t _ _ _) = t"
| "getTime (OrderCancelEvent t _ _) = t"
| "getTime (OrderReplacedEvent t _ _ _) = t"
| "getTime (OrderFillEvent t _ _ _ _) = t"
| "getTime (OrderRejectedEvent t _ _ _) = t"
| "getTime (TickHistoryEvent t _ _) = t"
| "getTime (CandlesHistoryEvent t _ _) = t"
| "getTime (EndOfDataEvent t _) = t"

section \<open>The simulated broker worker\<close>

text \<open>
  A panic aborts the run; it is the \<open>Inl\<close> result of the functions below. A non-fatal
  error is a value sent on the error channel. The sends happen in goroutines of their
  own; the channel is modelled by the list of the values sent, in the order of the calls
  of \<open>newError\<close>.
\<close>

datatype panic =
    PanicNonAuctionType | PanicUnknownTif string
  | PanicConfirmationNotExisting | PanicCancelNotFound string | PanicReplaceNotFound string
  | PanicFillNotFound string | PanicLargeQty
  | PanicUnexpectedEventType | PanicUnexpectedMdEvent | PanicUnexpectedBrokerEvent
  | PanicCandleBeforeSeen | PanicTickBeforeSeen
  | PanicNotImplemented | PanicUnknownSide | PanicSliceBounds | PanicNilDereference

datatype error =
    ErrInvalidOrder string | ErrUnexpectedOrderType string | ErrUnexpectedOrderState string
  | ErrLvsQty | ErrUnknownOrderType string | ErrUnknownOrderSide string | ErrUnknownSide
  | ErrCantCheckFillUnknownSide
  | ErrBrokenTick | ErrNoTrade
  | ErrOrderIdIncorrect string | ErrOrderNotFoundInConfirmedMap string | ErrAlreadyWaiting
  | ErrMismatchSymbols | ErrExecQty | ErrPrice | ErrNewPosNotClosed
  | ErrTradeClosed | ErrOrderStateForFill string | ErrOrderNotValid | ErrSymbolsDiffer

text \<open>\<open>simBrokerOrder\<close> embeds a pointer to the order; \<open>Order'\<close> is the embedded order.\<close>

record simBrokerOrder =
  Order' :: Order
  BrokerState :: OrderState
  StateUpdTime :: GoTime
  BrokerExecQty :: int64
  BrokerPrice :: float64

definition getExpirationTime :: "simBrokerOrder \<Rightarrow> panic + GoTime" where
  "getExpirationTime ord =
     (case Tif (Order' ord) of
        GTCTIF \<Rightarrow> Inr (AddYears (Time (Order' ord)) 10)
      | DayTIF \<Rightarrow>
          (let nextDay = AddDays (Time (Order' ord)) 1 in Inr (DateOnDayOf nextDay 0 0 0))
      | AuctionTIF \<Rightarrow>
          (if Type (Order' ord) = MarketOnOpen \<or> Type (Order' ord) = LimitOnOpen then
             (let mot = MarketOpenTime (Exchange (Order.Ticker (Order' ord)));
                  t = DateOnDayOf (Time (Order' ord)) (Hour mot) (Minute mot) (Second mot)
              in Inr (Add t (3 * (60 * 1000000000))))
           else if Type (Order' ord) = MarketOnClose \<or> Type (Order' ord) = LimitOnClose then
             (let mct = MarketCloseTime (Exchange (Order.Ticker (Order' ord)));
                  t = DateOnDayOf (Time (Order' ord)) (Hour mct) (Minute mct) (Second mct)
              in Inr (Add t (3 * 1000000000)))
           else Inl PanicNonAuctionType)
      | OtherTIF s \<Rightarrow> Inl (PanicUnknownTif s))"

definition isExpired :: "simBrokerOrder \<Rightarrow> GoTime \<Rightarrow> panic + bool" where
  "isExpired ord t =
     (case getExpirationTime ord of
        Inl p \<Rightarrow> Inl p
      | Inr x \<Rightarrow> Inr (After t x))"

definition isActive :: "simBrokerOrder \<Rightarrow> bool" where
  "isActive ord = (BrokerState ord = ConfirmedOrder \<or> BrokerState ord = PartialFilledOrder)"

text \<open>
  The worker. \<open>orders\<close> is the map from order id to broker order, kept as an association
  list: Go leaves the order in which \<open>range\<close> visits a map unspecified, and the order of
  the list stands for the order of the visit. \<open>events\<close> and \<open>errChan\<close> are the values sent
  so far on the two channels.
\<close>

record simBrokerWorker =
  symbol :: Instrument
  delay :: int64
  strictLimitOrders :: bool
  orders :: "(string \<times> simBrokerOrder) list"
  generatedEvents :: "event list"
  requestEvents :: "event list"
  lastTickTime :: GoTime
  lastCandleTime :: GoTime
  events :: "event list"
  errChan :: "error list"

definition newError :: "simBrokerWorker \<Rightarrow> error \<Rightarrow> simBrokerWorker" where
  "newError b e = b\<lparr>errChan := errChan b @ [e]\<rparr>"

definition addRequestEvent :: "simBrokerWorker \<Rightarrow> event \<Rightarrow> simBrokerWorker" where
  "addRequestEvent b e = b\<lparr>requestEvents := requestEvents b @ [e]\<rparr>"

definition genTimeRoundTrip :: "simBrokerWorker \<Rightarrow> GoTime \<Rightarrow> GoTime" where
  "genTimeRoundTrip b baseTime = Add baseTime ((delay b * 2) * Millisecond)"

definition genTimeSingleTrip :: "simBrokerWorker \<Rightarrow> GoTime \<Rightarrow> GoTime" where
  "genTimeSingleTrip b baseTime = Add baseTime (delay b * Millisecond)"

definition validateOrderForExecution ::
  "simBrokerOrder \<Rightarrow> OrderType \<Rightarrow> error option" where
  "validateOrderForExecution ord expectedType =
     (if \<not> OrderValid (Order' ord) then Some (ErrInvalidOrder (Id (Order' ord)))
      else if Type (Order' ord) \<noteq> expectedType then
        Some (ErrUnexpectedOrderType (Id (Order' ord)))
      else if BrokerState ord \<noteq> ConfirmedOrder \<and> BrokerState ord \<noteq> PartialFilledOrder then
        Some (ErrUnexpectedOrderState (Id (Order' ord)))
      else if Qty (Order' ord) - BrokerExecQty ord \<le>s 0 then Some ErrLvsQty
      else None)"

text \<open>
  \<open>addBrokerEvent\<close>: the order named by the event is updated in place (through the pointer
  held by the map), then the event is appended to the buffer of generated events.
\<close>

definition updOrder ::
  "string \<Rightarrow> (simBrokerOrder \<Rightarrow> simBrokerOrder) \<Rightarrow> simBrokerWorker \<Rightarrow> simBrokerWorker" where
  "updOrder k f b = b\<lparr>orders := AList.map_entry k f (orders b)\<rparr>"

fun applyBrokerEvent :: "simBrokerWorker \<Rightarrow> event \<Rightarrow> panic + simBrokerWorker" where
  "applyBrokerEvent b (OrderConfirmationEvent t tk ordId) =
     (case map_of (orders b) ordId of
        None \<Rightarrow> Inl PanicConfirmationNotExisting
      | Some ord \<Rightarrow>
          Inr (updOrder ordId (\<lambda>x. x\<lparr>BrokerState := ConfirmedOrder, StateUpdTime := t\<rparr>) b))"
| "applyBrokerEvent b (OrderCancelRejectEvent t tk ordId r) = Inr b"
| "applyBrokerEvent b (OrderReplaceRejectEvent t tk ordId r) = Inr b"
| "applyBrokerEvent b (OrderCancelEvent t tk ordId) =
     (case map_of (orders b) ordId of
        None \<Rightarrow> Inl (PanicCancelNotFound ordId)
      | Some ord \<Rightarrow>
          Inr (updOrder ordId (\<lambda>x. x\<lparr>BrokerState := CanceledOrder, StateUpdTime := t\<rparr>) b))"
| "applyBrokerEvent b (OrderReplacedEvent t tk ordId newPrice) =
     (case map_of (orders b) ordId of
        None \<Rightarrow> Inl (PanicReplaceNotFound ordId)
      | Some ord \<Rightarrow>
          Inr (updOrder ordId (\<lambda>x. x\<lparr>StateUpdTime := t, BrokerPrice := newPrice\<rparr>) b))"
| "applyBrokerEvent b (OrderFillEvent t tk ordId price execQty) =
     (case map_of (orders b) ordId of
        None \<Rightarrow> Inl (PanicFillNotFound ordId)
      | Some ord \<Rightarrow>
          (if execQty = Qty (Order' ord) - BrokerExecQty ord then
             Inr (updOrder ordId
                   (\<lambda>x. x\<lparr>BrokerState := FilledOrder,
                          BrokerExecQty := BrokerExecQty x + execQty\<rparr>) b)
           else if Qty (Order' ord) - BrokerExecQty ord <s execQty then Inl PanicLargeQty
           else
             Inr (updOrder ordId
                   (\<lambda>x. x\<lparr>BrokerState := PartialFilledOrder,
                          BrokerExecQty := BrokerExecQty x + execQty\<rparr>) b)))"
| "applyBrokerEvent b (OrderRejectedEvent t tk ordId r) =
     (case map_of (orders b) ordId of
        None \<Rightarrow> Inl PanicConfirmationNotExisting
      | Some ord \<Rightarrow>
          Inr (updOrder ordId
                (\<lambda>x. (if BrokerState x \<noteq> ConfirmedOrder then x\<lparr>BrokerState := RejectedOrder\<rparr>
                       else x)\<lparr>StateUpdTime := t\<rparr>) b))"
| "applyBrokerEvent b _ = Inr b"

definition addBrokerEvent :: "simBrokerWorker \<Rightarrow> event \<Rightarrow> panic + simBrokerWorker" where
  "addBrokerEvent b e =
     (case applyBrokerEvent b e of
        Inl p \<Rightarrow> Inl p
      | Inr b' \<Rightarrow> Inr (b'\<lparr>generatedEvents := generatedEvents b' @ [e]\<rparr>))"

subsection \<open>Request handlers\<close>

text \<open>
  The handlers take the fields of the request event: its time, its instrument and its
  payload.
\<close>

definition onNewOrder ::
  "simBrokerWorker \<Rightarrow> GoTime \<Rightarrow> Instrument \<Rightarrow> Order \<Rightarrow> panic + simBrokerWorker" where
  "onNewOrder b t tk linkedOrder =
     (if \<not> OrderValid linkedOrder then
        (let rejectEvent =
               OrderRejectedEvent (genTimeRoundTrip b t) tk (Id linkedOrder) ReasonOrderNotValid;
             b1 = b\<lparr>orders :=
                      AList.update (Id linkedOrder)
                        \<lparr>Order' = linkedOrder, BrokerState = RejectedOrder,
                         StateUpdTime = getTime rejectEvent, BrokerExecQty = 0,
                         BrokerPrice = Fin 0\<rparr>
                        (orders b)\<rparr>
         in addBrokerEvent b1 rejectEvent)
      else if map_of (orders b) (Id linkedOrder) \<noteq> None then
        (let rejectEvent =
               OrderRejectedEvent (genTimeRoundTrip b t) tk (Id linkedOrder) ReasonIdExists
         in addBrokerEvent b rejectEvent)
      else
        (let confEvent = OrderConfirmationEvent (genTimeRoundTrip b t) tk (Id linkedOrder);
             b1 = b\<lparr>orders :=
                      AList.update (Id linkedOrder)
                        \<lparr>Order' = linkedOrder, BrokerState = NewOrder,
                         StateUpdTime = getTime confEvent, BrokerExecQty = 0,
                         BrokerPrice = Price linkedOrder\<rparr>
                        (orders b)\<rparr>
         in addBrokerEvent b1 confEvent))"

definition onCancelRequest ::
  "simBrokerWorker \<Rightarrow> GoTime \<Rightarrow> Instrument \<Rightarrow> string \<Rightarrow> panic + simBrokerWorker" where
  "onCancelRequest b t tk ordId =
     (let newEvTime = genTimeRoundTrip b t in
      case map_of (orders b) ordId of
        None \<Rightarrow> addBrokerEvent b (OrderCancelRejectEvent newEvTime tk ordId ReasonNotFound)
      | Some ord \<Rightarrow>
          (if BrokerState ord = CanceledOrder then
             addBrokerEvent b (OrderCancelRejectEvent newEvTime tk ordId ReasonAlreadyCanceled)
           else if BrokerState ord = NewOrder then
             addBrokerEvent b (OrderCancelRejectEvent newEvTime tk ordId ReasonNotConfirmedYet)
           else if BrokerState ord = FilledOrder then
             addBrokerEvent b (OrderCancelRejectEvent newEvTime tk ordId ReasonAlreadyFilled)
           else addBrokerEvent b (OrderCancelEvent newEvTime tk ordId)))"

definition onReplaceRequest ::
  "simBrokerWorker \<Rightarrow> GoTime \<Rightarrow> Instrument \<Rightarrow> string \<Rightarrow> float64 \<Rightarrow> panic + simBrokerWorker"
  where
  "onReplaceRequest b t tk ordId newPrice =
     (let newEvTime = genTimeRoundTrip b t in
      case map_of (orders b) ordId of
        None \<Rightarrow> addBrokerEvent b (OrderReplaceRejectEvent newEvTime tk ordId ReasonNotFound)
      | Some ord \<Rightarrow>
          (if BrokerState ord = CanceledOrder then
             addBrokerEvent b (OrderReplaceRejectEvent newEvTime tk ordId ReasonAlreadyCanceled)
           else if BrokerState ord = NewOrder then
             addBrokerEvent b (OrderReplaceRejectEvent newEvTime tk ordId ReasonNotConfirmedYet)
           else if BrokerState ord = FilledOrder then
             addBrokerEvent b (OrderReplaceRejectEvent newEvTime tk ordId ReasonAlreadyFilled)
           else if IsNaN newPrice \<or> flt_eq newPrice (Fin 0) then
             addBrokerEvent b (OrderReplaceRejectEvent newEvTime tk ordId ReasonBadReplacePrice)
           else addBrokerEvent b (OrderReplacedEvent newEvTime tk ordId newPrice)))"

subsection \<open>The buffer of requests\<close>

text \<open>
  \<open>eventArray.sort\<close> is \<open>sort.SliceStable\<close> with the comparison
  \<open>t[i].getTime().Unix() < t[j].getTime().Unix()\<close>: a stable sort on the whole second
  of the time stamp.
\<close>

definition sortEvents :: "event list \<Rightarrow> event list" where
  "sortEvents es = sort_key (\<lambda>e. Unix (getTime e)) es"

fun handleRequest :: "simBrokerWorker \<Rightarrow> event \<Rightarrow> panic + simBrokerWorker" where
  "handleRequest b (NewOrderEvent t tk linkedOrder) = onNewOrder b t tk linkedOrder"
| "handleRequest b (OrderCancelRequestEvent t tk ordId) = onCancelRequest b t tk ordId"
| "handleRequest b (OrderReplaceRequestEvent t tk ordId newPrice) =
     onReplaceRequest b t tk ordId newPrice"
| "handleRequest b _ = Inl PanicUnexpectedEventType"

text \<open>
  The loop of \<open>proceedStoredRequests\<close> over the sorted buffer: the worker and the slice
  \<open>eventsLeft\<close> are threaded through.
\<close>

fun proceedLoop ::
  "GoTime \<Rightarrow> event list \<Rightarrow> simBrokerWorker \<Rightarrow> event list \<Rightarrow> panic + (simBrokerWorker \<times> event list)"
  where
  "proceedLoop beforeTime [] b eventsLeft = Inr (b, eventsLeft)"
| "proceedLoop beforeTime (e # es) b eventsLeft =
     (if Before (genTimeSingleTrip b (getTime e)) beforeTime then
        (case handleRequest b e of
           Inl p \<Rightarrow> Inl p
         | Inr b' \<Rightarrow> proceedLoop beforeTime es b' eventsLeft)
      else proceedLoop beforeTime es b (eventsLeft @ [e]))"

definition proceedStoredRequests :: "simBrokerWorker \<Rightarrow> GoTime \<Rightarrow> panic + simBrokerWorker" where
  "proceedStoredRequests b beforeTime =
     (if requestEvents b = [] then Inr b
      else
        (let b0 = b\<lparr>requestEvents := sortEvents (requestEvents b)\<rparr> in
         case proceedLoop beforeTime (requestEvents b0) b0 [] of
           Inl p \<Rightarrow> Inl p
         | Inr (b', eventsLeft) \<Rightarrow> Inr (b'\<lparr>requestEvents := eventsLeft\<rparr>)))"

text \<open>Handling a sequence of requests one after the other, up to the first panic.\<close>

fun handleRequests :: "simBrokerWorker \<Rightarrow> event list \<Rightarrow> panic + simBrokerWorker" where
  "handleRequests b [] = Inr b"
| "handleRequests b (e # es) =
     (case handleRequest b e of
        Inl p \<Rightarrow> Inl p
      | Inr b' \<Rightarrow> handleRequests b' es)"

fun isRequest :: "event \<Rightarrow> bool" where
  "isRequest (NewOrderEvent t tk linkedOrder) = True"
| "isRequest (OrderCancelRequestEvent t tk ordId) = True"
| "isRequest (OrderReplaceRequestEvent t tk ordId newPrice) = True"
| "isRequest _ = False"

subsection \<open>Fills on a tick\<close>

text \<open>
  A fill function reads the worker, the order and the tick; it returns the values it
  passes to \<open>newError\<close> and the event it returns (\<open>None\<close> being \<open>nil\<close>), or the array of
  events for the auction orders.
\<close>

definition fillOnTickLimitAuction ::
  "simBrokerWorker \<Rightarrow> simBrokerOrder \<Rightarrow> Tick \<Rightarrow> error list \<times> event list" where
  "fillOnTickLimitAuction b ord tick =
     (let cancelOnTick =
            OrderCancelEvent (genTimeRoundTrip b (Tick.Datetime tick)) (Tick.Ticker tick)
              (Id (Order' ord));
          rest =
            (if flt_eq (LastPrice tick) (BrokerPrice ord) \<and> strictLimitOrders b then
               ([], [cancelOnTick])
             else
               (let execQty =
                      (if LastSize tick <s Qty (Order' ord) then LastSize tick
                       else Qty (Order' ord));
                    fillE =
                      OrderFillEvent (genTimeRoundTrip b (Tick.Datetime tick))
                        (Order.Ticker (Order' ord)) (Id (Order' ord)) (LastPrice tick) execQty;
                    cancelE =
                      OrderCancelEvent (genTimeRoundTrip b (Tick.Datetime tick))
                        (Order.Ticker (Order' ord)) (Id (Order' ord))
                in ([], [fillE] @ (if execQty <s Qty (Order' ord) then [cancelE] else []))))
      in case Side (Order' ord) of
           OrderSell \<Rightarrow>
             (if flt_lt (LastPrice tick) (BrokerPrice ord) then ([], [cancelOnTick]) else rest)
         | OrderBuy \<Rightarrow>
             (if flt_gt (LastPrice tick) (BrokerPrice ord) then ([], [cancelOnTick]) else rest)
         | OtherSide s \<Rightarrow> ([ErrUnknownOrderSide (Id (Order' ord))], []))"

definition fillOnTickLOO ::
  "simBrokerWorker \<Rightarrow> simBrokerOrder \<Rightarrow> Tick \<Rightarrow> error list \<times> event list" where
  "fillOnTickLOO b ord tick =
     (case validateOrderForExecution ord LimitOnOpen of
        Some err \<Rightarrow> ([err], [])
      | None \<Rightarrow> (if \<not> IsOpening tick then ([], []) else fillOnTickLimitAuction b ord tick))"

definition fillOnTickLOC ::
  "simBrokerWorker \<Rightarrow> simBrokerOrder \<Rightarrow> Tick \<Rightarrow> error list \<times> event list" where
  "fillOnTickLOC b ord tick =
     (case validateOrderForExecution ord LimitOnClose of
        Some err \<Rightarrow> ([err], [])
      | None \<Rightarrow> (if \<not> IsClosing tick then ([], []) else fillOnTickLimitAuction b ord tick))"

definition fillOnTickMOO ::
  "simBrokerWorker \<Rightarrow> simBrokerOrder \<Rightarrow> Tick \<Rightarrow> error list \<times> event option" where
  "fillOnTickMOO b ord tick =
     (if \<not> IsOpening tick then ([], None)
      else if \<not> TickHasTrade tick then ([], None)
      else
        (case validateOrderForExecution ord MarketOnOpen of
           Some err \<Rightarrow> ([err], None)
         | None \<Rightarrow>
             ([], Some (OrderFillEvent (genTimeRoundTrip b (Tick.Datetime tick))
                          (Order.Ticker (Order' ord)) (Id (Order' ord)) (LastPrice tick)
                          (Qty (Order' ord))))))"

definition fillOnTickMOC ::
  "simBrokerWorker \<Rightarrow> simBrokerOrder \<Rightarrow> Tick \<Rightarrow> error list \<times> event option" where
  "fillOnTickMOC b ord tick =
     (if \<not> IsClosing tick then ([], None)
      else if \<not> TickHasTrade tick then ([], None)
      else
        (case validateOrderForExecution ord MarketOnClose of
           Some err \<Rightarrow> ([err], None)
         | None \<Rightarrow>
             ([], Some (OrderFillEvent (genTimeRoundTrip b (Tick.Datetime tick))
                          (Order.Ticker (Order' ord)) (Id (Order' ord)) (LastPrice tick)
                          (Qty (Order' ord))))))"

definition fillOnTickLimit ::
  "simBrokerWorker \<Rightarrow> simBrokerOrder \<Rightarrow> Tick \<Rightarrow> error list \<times> event option" where
  "fillOnTickLimit b ord tick =
     (if \<not> TickHasTrade tick then ([], None)
      else
        (case validateOrderForExecution ord LimitOrder of
           Some err \<Rightarrow> ([err], None)
         | None \<Rightarrow>
             (let lvsQty = Qty (Order' ord) - BrokerExecQty ord;
                  qty = (if LastSize tick <s lvsQty then LastSize tick else lvsQty);
                  fillE =
                    OrderFillEvent (genTimeRoundTrip b (Tick.Datetime tick))
                      (Order.Ticker (Order' ord)) (Id (Order' ord)) (BrokerPrice ord) qty
              in case Side (Order' ord) of
                   OrderSell \<Rightarrow>
                     (if flt_gt (LastPrice tick) (BrokerPrice ord) then ([], Some fillE)
                      else if flt_eq (LastPrice tick) (BrokerPrice ord) \<and> \<not> strictLimitOrders b
                      then ([], Some fillE)
                      else ([], None))
                 | OrderBuy \<Rightarrow>
                     (if flt_lt (LastPrice tick) (BrokerPrice ord) then ([], Some fillE)
                      else if flt_eq (LastPrice tick) (BrokerPrice ord) \<and> \<not> strictLimitOrders b
                      then ([], Some fillE)
                      else ([], None))
                 | OtherSide s \<Rightarrow> ([ErrCantCheckFillUnknownSide], None))))"

definition fillOnTickStop ::
  "simBrokerWorker \<Rightarrow> simBrokerOrder \<Rightarrow> Tick \<Rightarrow> error list \<times> event option" where
  "fillOnTickStop b ord tick =
     (if \<not> TickHasTrade tick then ([], None)
      else
        (case validateOrderForExecution ord StopOrder of
           Some err \<Rightarrow> ([err], None)
         | None \<Rightarrow>
             (let lvsQty = Qty (Order' ord) - BrokerExecQty ord;
                  qty0 = (if LastSize tick <s lvsQty then LastSize tick else lvsQty);
                  qty = (if TickHasQuote tick then lvsQty else qty0)
              in case Side (Order' ord) of
                   OrderSell \<Rightarrow>
                     (if flt_gt (LastPrice tick) (BrokerPrice ord) then ([], None)
                      else
                        ([], Some (OrderFillEvent (genTimeRoundTrip b (Tick.Datetime tick))
                                     (Order.Ticker (Order' ord)) (Id (Order' ord))
                                     (if TickHasQuote tick then BidPrice tick else LastPrice tick)
                                     qty)))
                 | OrderBuy \<Rightarrow>
                     (if flt_lt (LastPrice tick) (BrokerPrice ord) then ([], None)
                      else
                        ([], Some (OrderFillEvent (genTimeRoundTrip b (Tick.Datetime tick))
                                     (Order.Ticker (Order' ord)) (Id (Order' ord))
                                     (if TickHasQuote tick then AskPrice tick else LastPrice tick)
                                     qty)))
                 | OtherSide s \<Rightarrow> ([ErrUnknownOrderSide (Id (Order' ord))], None))))"

definition fillOnTickMarket ::
  "simBrokerWorker \<Rightarrow> simBrokerOrder \<Rightarrow> Tick \<Rightarrow> error list \<times> event option" where
  "fillOnTickMarket b ord tick =
     (if Type (Order' ord) \<noteq> MarketOrder then
        ([ErrUnexpectedOrderType (Id (Order' ord))], None)
      else if \<not> OrderValid (Order' ord) then ([ErrInvalidOrder (Id (Order' ord))], None)
      else if TickHasQuote tick then
        (let lvsQty = Qty (Order' ord) - BrokerExecQty ord in
         if Side (Order' ord) = OrderBuy then
           ([], Some (OrderFillEvent (genTimeRoundTrip b (Tick.Datetime tick))
                        (Order.Ticker (Order' ord)) (Id (Order' ord)) (AskPrice tick)
                        (if AskSize tick <s lvsQty then AskSize tick else lvsQty)))
         else if Side (Order' ord) \<noteq> OrderSell then ([ErrUnknownSide], None)
         else
           ([], Some (OrderFillEvent (genTimeRoundTrip b (Tick.Datetime tick))
                        (Order.Ticker (Order' ord)) (Id (Order' ord)) (BidPrice tick)
                        (if BidSize tick <s lvsQty then BidSize tick else lvsQty))))
      else if \<not> TickHasTrade tick then ([ErrNoTrade], None)
      else
        ([], Some (OrderFillEvent (genTimeRoundTrip b (Tick.Datetime tick))
                     (Order.Ticker (Order' ord)) (Id (Order' ord)) (LastPrice tick)
                     (Qty (Order' ord)))))"

definition convertToList :: "error list \<times> event option \<Rightarrow> error list \<times> event list" where
  "convertToList r = (case r of (errs, None) \<Rightarrow> (errs, []) | (errs, Some e) \<Rightarrow> (errs, [e]))"

definition findExecutionsOnTick ::
  "simBrokerWorker \<Rightarrow> simBrokerOrder \<Rightarrow> Tick \<Rightarrow> error list \<times> event list" where
  "findExecutionsOnTick b orderSim tick =
     (case validateOrderForExecution orderSim (Type (Order' orderSim)) of
        Some err \<Rightarrow> ([err], [])
      | None \<Rightarrow>
          (case Type (Order' orderSim) of
             MarketOrder \<Rightarrow> convertToList (fillOnTickMarket b orderSim tick)
           | LimitOrder \<Rightarrow> convertToList (fillOnTickLimit b orderSim tick)
           | StopOrder \<Rightarrow> convertToList (fillOnTickStop b orderSim tick)
           | LimitOnClose \<Rightarrow> fillOnTickLOC b orderSim tick
           | LimitOnOpen \<Rightarrow> fillOnTickLOO b orderSim tick
           | MarketOnOpen \<Rightarrow> convertToList (fillOnTickMOO b orderSim tick)
           | MarketOnClose \<Rightarrow> convertToList (fillOnTickMOC b orderSim tick)
           | OtherType s \<Rightarrow> ([ErrUnknownOrderType (Id (Order' orderSim))], [])))"

subsection \<open>Fills on the close and on the open of a candle\<close>

text \<open>
  The candle functions take the fields of the event: its time \<open>t\<close>, its instrument \<open>tk\<close>,
  the candle (or the candle time and the opening price) and the time frame. They send
  no errors; an order with an unknown side makes them panic.
\<close>

definition fillEventOrNil ::
  "GoTime \<Rightarrow> Instrument \<Rightarrow> simBrokerOrder \<Rightarrow> float64 \<Rightarrow> event option" where
  "fillEventOrNil t tk ord fillPrice =
     (if IsNaN fillPrice then None
      else Some (OrderFillEvent t tk (Id (Order' ord)) fillPrice
                   (Qty (Order' ord) - BrokerExecQty ord)))"

definition dailyOrOpening :: "string \<Rightarrow> Candle \<Rightarrow> bool" where
  "dailyOrOpening tf c = (tf = ''D'' \<or> tf = ''W'' \<or> (tf \<noteq> ''D'' \<and> CandleIsOpening c))"

definition fillOnCandleCloseLimit ::
  "simBrokerWorker \<Rightarrow> simBrokerOrder \<Rightarrow> GoTime \<Rightarrow> Instrument \<Rightarrow> Candle \<Rightarrow> string
     \<Rightarrow> panic + event option" where
  "fillOnCandleCloseLimit b ord t tk c tf =
     (if \<not> Before (StateUpdTime ord) (Candle.Datetime c) then
        (let p1 = (if Side (Order' ord) = OrderBuy \<and> flt_lt (Low c) (Open c)
                      \<and> flt_lt (Low c) (BrokerPrice ord) then BrokerPrice ord else NaN);
             p2 = (if Side (Order' ord) = OrderSell \<and> flt_gt (High c) (Open c)
                      \<and> flt_gt (High c) (BrokerPrice ord) then BrokerPrice ord else p1)
         in Inr (fillEventOrNil t tk ord p2))
      else
        (case Side (Order' ord) of
           OrderBuy \<Rightarrow>
             Inr (fillEventOrNil t tk ord
               (if flt_lt (Low c) (BrokerPrice ord)
                   \<or> (flt_eq (Low c) (BrokerPrice ord) \<and> \<not> strictLimitOrders b) then
                  (if dailyOrOpening tf c \<and> flt_lt (Open c) (BrokerPrice ord) then Open c
                   else BrokerPrice ord)
                else NaN))
         | OrderSell \<Rightarrow>
             Inr (fillEventOrNil t tk ord
               (if flt_gt (High c) (BrokerPrice ord)
                   \<or> (flt_eq (High c) (BrokerPrice ord) \<and> \<not> strictLimitOrders b) then
                  (if dailyOrOpening tf c \<and> flt_gt (Open c) (BrokerPrice ord) then Open c
                   else BrokerPrice ord)
                else NaN))
         | OtherSide s \<Rightarrow> Inl PanicUnknownSide))"

definition fillOnCandleCloseMOC ::
  "simBrokerOrder \<Rightarrow> GoTime \<Rightarrow> Instrument \<Rightarrow> Candle \<Rightarrow> event option" where
  "fillOnCandleCloseMOC ord t tk c =
     (if \<not> CandleIsClosing c then None
      else Some (OrderFillEvent t tk (Id (Order' ord)) (Close c)
                   (Qty (Order' ord) - BrokerExecQty ord)))"

definition fillOrCancel ::
  "GoTime \<Rightarrow> Instrument \<Rightarrow> simBrokerOrder \<Rightarrow> float64 \<Rightarrow> event option" where
  "fillOrCancel t tk ord fillPrice =
     (if IsNaN fillPrice then Some (OrderCancelEvent t tk (Id (Order' ord)))
      else Some (OrderFillEvent t tk (Id (Order' ord)) fillPrice
                   (Qty (Order' ord) - BrokerExecQty ord)))"

definition fillOnCandleCloseLOC ::
  "simBrokerWorker \<Rightarrow> simBrokerOrder \<Rightarrow> GoTime \<Rightarrow> Instrument \<Rightarrow> Candle
     \<Rightarrow> panic + event option" where
  "fillOnCandleCloseLOC b ord t tk c =
     (if \<not> CandleIsClosing c then Inr None
      else
        (case Side (Order' ord) of
           OrderBuy \<Rightarrow>
             Inr (fillOrCancel t tk ord
               (if flt_lt (Close c) (BrokerPrice ord)
                   \<or> (flt_eq (Close c) (BrokerPrice ord) \<and> \<not> strictLimitOrders b)
                then Close c else NaN))
         | OrderSell \<Rightarrow>
             Inr (fillOrCancel t tk ord
               (if flt_gt (Close c) (BrokerPrice ord)
                   \<or> (flt_eq (Close c) (BrokerPrice ord) \<and> \<not> strictLimitOrders b)
                then Close c else NaN))
         | OtherSide s \<Rightarrow> Inl PanicUnknownSide))"

definition fillOnCandleCloseStop ::
  "simBrokerOrder \<Rightarrow> GoTime \<Rightarrow> Instrument \<Rightarrow> Candle \<Rightarrow> panic + event option" where
  "fillOnCandleCloseStop ord t tk c =
     (if \<not> Before (StateUpdTime ord) (Candle.Datetime c) then
        (let p1 = (if Side (Order' ord) = OrderBuy \<and> flt_gt (High c) (Open c)
                      \<and> flt_gt (High c) (BrokerPrice ord) then Open c else NaN);
             p2 = (if Side (Order' ord) = OrderSell \<and> flt_lt (Low c) (Open c)
                      \<and> flt_lt (Low c) (BrokerPrice ord) then Open c else p1)
         in Inr (fillEventOrNil t tk ord p2))
      else
        (case Side (Order' ord) of
           OrderBuy \<Rightarrow>
             Inr (fillEventOrNil t tk ord
               (if flt_ge (High c) (BrokerPrice ord) then
                  (if flt_gt (Open c) (BrokerPrice ord) then Open c else BrokerPrice ord)
                else NaN))
         | OrderSell \<Rightarrow>
             Inr (fillEventOrNil t tk ord
               (if flt_le (Low c) (BrokerPrice ord) then
                  (if flt_lt (Open c) (BrokerPrice ord) then Open c else BrokerPrice ord)
                else NaN))
         | OtherSide s \<Rightarrow> Inl PanicUnknownSide))"

definition findExecutionsOnCandleClose ::
  "simBrokerWorker \<Rightarrow> simBrokerOrder \<Rightarrow> GoTime \<Rightarrow> Instrument \<Rightarrow> Candle \<Rightarrow> string
     \<Rightarrow> panic + event option" where
  "findExecutionsOnCandleClose b ord t tk c tf =
     (case Type (Order' ord) of
        LimitOrder \<Rightarrow> fillOnCandleCloseLimit b ord t tk c tf
      | StopOrder \<Rightarrow> fillOnCandleCloseStop ord t tk c
      | LimitOnClose \<Rightarrow> fillOnCandleCloseLOC b ord t tk c
      | MarketOnClose \<Rightarrow> Inr (fillOnCandleCloseMOC ord t tk c)
      | MarketOrder \<Rightarrow> Inl PanicNotImplemented
      | _ \<Rightarrow> Inr None)"

definition atMarketOpen :: "simBrokerOrder \<Rightarrow> GoTime \<Rightarrow> bool" where
  "atMarketOpen ord candleTime =
     (Hour_of candleTime = Hour (MarketOpenTime (Exchange (Order.Ticker (Order' ord))))
      \<and> Minute_of candleTime = Minute (MarketOpenTime (Exchange (Order.Ticker (Order' ord)))))"

definition fillAtOpen ::
  "simBrokerOrder \<Rightarrow> GoTime \<Rightarrow> Instrument \<Rightarrow> float64 \<Rightarrow> event" where
  "fillAtOpen ord t tk p =
     OrderFillEvent t tk (Id (Order' ord)) p (Qty (Order' ord) - BrokerExecQty ord)"

definition fillOnCandleOpenMOO ::
  "simBrokerOrder \<Rightarrow> GoTime \<Rightarrow> Instrument \<Rightarrow> GoTime \<Rightarrow> float64 \<Rightarrow> string \<Rightarrow> event option" where
  "fillOnCandleOpenMOO ord t tk candleTime price tf =
     (if tf = ''D'' \<or> tf = ''W'' then Some (fillAtOpen ord t tk price)
      else if \<not> atMarketOpen ord candleTime then None
      else Some (fillAtOpen ord t tk price))"

definition fillOnCandleOpenLOO ::
  "simBrokerWorker \<Rightarrow> simBrokerOrder \<Rightarrow> GoTime \<Rightarrow> Instrument \<Rightarrow> GoTime \<Rightarrow> float64 \<Rightarrow> string
     \<Rightarrow> panic + event option" where
  "fillOnCandleOpenLOO b ord t tk candleTime price tf =
     (if \<not> (tf = ''D'' \<or> tf = ''W'') \<and> \<not> atMarketOpen ord candleTime then Inr None
      else
        (case Side (Order' ord) of
           OrderBuy \<Rightarrow>
             (if flt_lt price (BrokerPrice ord)
                 \<or> (flt_eq price (BrokerPrice ord) \<and> \<not> strictLimitOrders b)
              then Inr (Some (fillAtOpen ord t tk price))
              else Inr (Some (OrderCancelEvent t tk (Id (Order' ord)))))
         | OrderSell \<Rightarrow>
             (if flt_gt price (BrokerPrice ord)
                 \<or> (flt_eq price (BrokerPrice ord) \<and> \<not> strictLimitOrders b)
              then Inr (Some (fillAtOpen ord t tk price))
              else Inr (Some (OrderCancelEvent t tk (Id (Order' ord)))))
         | OtherSide s \<Rightarrow> Inl PanicUnknownSide))"

definition fillOnCandleOpenMarket ::
  "simBrokerOrder \<Rightarrow> GoTime \<Rightarrow> Instrument \<Rightarrow> float64 \<Rightarrow> event option" where
  "fillOnCandleOpenMarket ord t tk price = Some (fillAtOpen ord t tk price)"

definition fillOnCandleOpenLimit ::
  "simBrokerWorker \<Rightarrow> simBrokerOrder \<Rightarrow> GoTime \<Rightarrow> Instrument \<Rightarrow> float64 \<Rightarrow> string
     \<Rightarrow> panic + event option" where
  "fillOnCandleOpenLimit b ord t tk price tf =
     (let fillPrice = (if tf = ''D'' \<or> tf = ''W'' then price else BrokerPrice ord);
          afterSwitch =
            (if \<not> strictLimitOrders b \<and> flt_eq price (BrokerPrice ord)
             then Some (fillAtOpen ord t tk fillPrice) else None)
      in case Side (Order' ord) of
           OrderBuy \<Rightarrow>
             (if flt_lt price (BrokerPrice ord)
                 \<or> (flt_eq price (BrokerPrice ord) \<and> \<not> strictLimitOrders b)
              then Inr (Some (fillAtOpen ord t tk fillPrice)) else Inr afterSwitch)
         | OrderSell \<Rightarrow>
             (if flt_gt price (BrokerPrice ord)
                 \<or> (flt_eq price (BrokerPrice ord) \<and> \<not> strictLimitOrders b)
              then Inr (Some (fillAtOpen ord t tk fillPrice)) else Inr afterSwitch)
         | OtherSide s \<Rightarrow> Inl PanicUnknownSide)"

definition fillOnCandleOpenStop ::
  "simBrokerOrder \<Rightarrow> GoTime \<Rightarrow> Instrument \<Rightarrow> float64 \<Rightarrow> panic + event option" where
  "fillOnCandleOpenStop ord t tk price =
     (case Side (Order' ord) of
        OrderBuy \<Rightarrow>
          (if flt_gt price (BrokerPrice ord) then Inr (Some (fillAtOpen ord t tk price))
           else Inr None)
      | OrderSell \<Rightarrow>
          (if flt_lt price (BrokerPrice ord) then Inr (Some (fillAtOpen ord t tk price))
           else Inr None)
      | OtherSide s \<Rightarrow> Inl PanicUnknownSide)"

definition findExecutionsOnCandleOpen ::
  "simBrokerWorker \<Rightarrow> simBrokerOrder \<Rightarrow> GoTime \<Rightarrow> Instrument \<Rightarrow> GoTime \<Rightarrow> float64 \<Rightarrow> string
     \<Rightarrow> panic + event option" where
  "findExecutionsOnCandleOpen b ord t tk candleTime price tf =
     (case Type (Order' ord) of
        LimitOrder \<Rightarrow> fillOnCandleOpenLimit b ord t tk price tf
      | LimitOnOpen \<Rightarrow> fillOnCandleOpenLOO b ord t tk candleTime price tf
      | StopOrder \<Rightarrow> fillOnCandleOpenStop ord t tk price
      | MarketOnOpen \<Rightarrow> Inr (fillOnCandleOpenMOO ord t tk candleTime price tf)
      | MarketOrder \<Rightarrow> Inr (fillOnCandleOpenMarket ord t tk price)
      | _ \<Rightarrow> Inr None)"

subsection \<open>Matching on a market-data event\<close>

definition cancelByTif ::
  "simBrokerWorker \<Rightarrow> simBrokerOrder \<Rightarrow> GoTime \<Rightarrow> panic + (simBrokerWorker \<times> bool)" where
  "cancelByTif b ord t =
     (case isExpired ord t of
        Inl p \<Rightarrow> Inl p
      | Inr False \<Rightarrow> Inr (b, False)
      | Inr True \<Rightarrow>
          (case getExpirationTime ord of
             Inl p \<Rightarrow> Inl p
           | Inr x \<Rightarrow>
               (case addBrokerEvent b
                       (OrderCancelEvent x (Order.Ticker (Order' ord)) (Id (Order' ord))) of
                  Inl p \<Rightarrow> Inl p
                | Inr b' \<Rightarrow> Inr (b', True))))"

text \<open>
  The body of the three \<open>range b.orders\<close> loops of \<open>findExecutions\<close>, at the order stored
  under the key \<open>k\<close>. The loop variable is a pointer, so the body reads the order as it
  is when it is visited. The state threaded through is the worker and the slice
  \<open>genEvents\<close>.
\<close>

definition tickStep ::
  "Instrument \<Rightarrow> Tick \<Rightarrow> string \<Rightarrow> simBrokerWorker \<times> event list
     \<Rightarrow> panic + (simBrokerWorker \<times> event list)" where
  "tickStep tk tick k s =
     (case s of (b, genEvents) \<Rightarrow>
      case map_of (orders b) k of
        None \<Rightarrow> Inr (b, genEvents)
      | Some ord \<Rightarrow>
          (if isActive ord \<and> Symbol (Order.Ticker (Order' ord)) = Symbol tk then
             (if Before (StateUpdTime ord) (Tick.Datetime tick) then
                (case cancelByTif b ord (Tick.Datetime tick) of
                   Inl p \<Rightarrow> Inl p
                 | Inr (b', cancel) \<Rightarrow>
                     (if cancel then Inr (b', genEvents)
                      else
                        (case findExecutionsOnTick b' ord tick of
                           (errs, es) \<Rightarrow>
                             Inr (b'\<lparr>errChan := errChan b' @ errs\<rparr>, genEvents @ es))))
              else Inr (b, genEvents))
           else Inr (b, genEvents)))"

definition appendOpt :: "event list \<Rightarrow> event option \<Rightarrow> event list" where
  "appendOpt genEvents r = (case r of None \<Rightarrow> genEvents | Some e \<Rightarrow> genEvents @ [e])"

definition candleCloseStep ::
  "GoTime \<Rightarrow> Instrument \<Rightarrow> Candle \<Rightarrow> string \<Rightarrow> string \<Rightarrow> simBrokerWorker \<times> event list
     \<Rightarrow> panic + (simBrokerWorker \<times> event list)" where
  "candleCloseStep t tk c tf k s =
     (case s of (b, genEvents) \<Rightarrow>
      case map_of (orders b) k of
        None \<Rightarrow> Inr (b, genEvents)
      | Some ord \<Rightarrow>
          (if Symbol (Order.Ticker (Order' ord)) = Symbol (Candle.Ticker c) \<and> isActive ord then
             (if Before (StateUpdTime ord) t then
                (case cancelByTif b ord (Candle.Datetime c) of
                   Inl p \<Rightarrow> Inl p
                 | Inr (b', cancel) \<Rightarrow>
                     (if cancel then Inr (b', genEvents)
                      else
                        (case findExecutionsOnCandleClose b' ord t tk c tf of
                           Inl p \<Rightarrow> Inl p
                         | Inr r \<Rightarrow> Inr (b', appendOpt genEvents r))))
              else Inr (b, genEvents))
           else Inr (b, genEvents)))"

definition candleOpenStep ::
  "GoTime \<Rightarrow> Instrument \<Rightarrow> GoTime \<Rightarrow> float64 \<Rightarrow> string \<Rightarrow> string
     \<Rightarrow> simBrokerWorker \<times> event list \<Rightarrow> panic + (simBrokerWorker \<times> event list)" where
  "candleOpenStep t tk candleTime price tf k s =
     (case s of (b, genEvents) \<Rightarrow>
      case map_of (orders b) k of
        None \<Rightarrow> Inr (b, genEvents)
      | Some ord \<Rightarrow>
          (if InstrAddr (Order.Ticker (Order' ord)) = InstrAddr tk \<and> isActive ord then
             (if Before (StateUpdTime ord) candleTime then
                (case cancelByTif b ord candleTime of
                   Inl p \<Rightarrow> Inl p
                 | Inr (b', cancel) \<Rightarrow>
                     (if cancel then Inr (b', genEvents)
                      else
                        (case findExecutionsOnCandleOpen b' ord t tk candleTime price tf of
                           Inl p \<Rightarrow> Inl p
                         | Inr r \<Rightarrow> Inr (b', appendOpt genEvents r))))
              else if (Type (Order' ord) = MarketOrder \<or> Type (Order' ord) = StopOrder)
                      \<and> \<not> After (StateUpdTime ord) t then
                (case findExecutionsOnCandleOpen b ord t tk candleTime price tf of
                   Inl p \<Rightarrow> Inl p
                 | Inr r \<Rightarrow> Inr (b, appendOpt genEvents r))
              else Inr (b, genEvents))
           else Inr (b, genEvents)))"

fun orderLoop ::
  "(string \<Rightarrow> simBrokerWorker \<times> event list \<Rightarrow> panic + (simBrokerWorker \<times> event list))
     \<Rightarrow> string list \<Rightarrow> simBrokerWorker \<times> event list
     \<Rightarrow> panic + (simBrokerWorker \<times> event list)" where
  "orderLoop step [] s = Inr s"
| "orderLoop step (k # ks) s =
     (case step k s of
        Inl p \<Rightarrow> Inl p
      | Inr s' \<Rightarrow> orderLoop step ks s')"

text \<open>
  The keys of the map \<open>b.orders\<close> in the order of the visit: each key once.
\<close>

definition orderKeys :: "simBrokerWorker \<Rightarrow> string list" where
  "orderKeys b = remdups (map fst (orders b))"

definition matchOrders ::
  "simBrokerWorker \<Rightarrow> event \<Rightarrow> panic + (simBrokerWorker \<times> event list)" where
  "matchOrders b mdEvent =
     (case mdEvent of
        NewTickEvent t tk tick \<Rightarrow> orderLoop (tickStep tk tick) (orderKeys b) (b, [])
      | CandleCloseEvent t tk c tf \<Rightarrow>
          orderLoop (candleCloseStep t tk c tf) (orderKeys b) (b, [])
      | CandleOpenEvent t tk candleTime price tf \<Rightarrow>
          orderLoop (candleOpenStep t tk candleTime price tf) (orderKeys b) (b, [])
      | _ \<Rightarrow> Inl PanicUnexpectedMdEvent)"

fun addBrokerEvents :: "simBrokerWorker \<Rightarrow> event list \<Rightarrow> panic + simBrokerWorker" where
  "addBrokerEvents b [] = Inr b"
| "addBrokerEvents b (e # es) =
     (case addBrokerEvent b e of
        Inl p \<Rightarrow> Inl p
      | Inr b' \<Rightarrow> addBrokerEvents b' es)"

text \<open>The last loop of \<open>findExecutions\<close>: the sorted buffer is split at the time \<open>T\<close>.\<close>

fun releaseLoop ::
  "GoTime \<Rightarrow> event list \<Rightarrow> event list \<Rightarrow> event list \<Rightarrow> event list \<times> event list" where
  "releaseLoop T [] eventsToSend eventsLeft = (eventsToSend, eventsLeft)"
| "releaseLoop T (e # es) eventsToSend eventsLeft =
     (if \<not> After (getTime e) T then releaseLoop T es (eventsToSend @ [e]) eventsLeft
      else releaseLoop T es eventsToSend (eventsLeft @ [e]))"

definition findExecutions :: "simBrokerWorker \<Rightarrow> event \<Rightarrow> panic + simBrokerWorker" where
  "findExecutions b mdEvent =
     (if orders b = [] \<and> generatedEvents b = [] then Inr (b\<lparr>events := events b @ [mdEvent]\<rparr>)
      else
        (let b1 = b\<lparr>generatedEvents := generatedEvents b @ [mdEvent]\<rparr> in
         case matchOrders b1 mdEvent of
           Inl p \<Rightarrow> Inl p
         | Inr (b2, genEvents) \<Rightarrow>
             (case addBrokerEvents b2 genEvents of
                Inl p \<Rightarrow> Inl p
              | Inr b3 \<Rightarrow>
                  (case releaseLoop (getTime mdEvent) (sortEvents (generatedEvents b3)) [] [] of
                     (eventsToSend, eventsLeft) \<Rightarrow>
                       Inr (b3\<lparr>generatedEvents := eventsLeft,
                               events := events b3 @ eventsToSend\<rparr>)))))"

subsection \<open>Market-data handlers and dispatch\<close>

definition onTick :: "simBrokerWorker \<Rightarrow> event \<Rightarrow> panic + simBrokerWorker" where
  "onTick b e =
     (case e of
        NewTickEvent t tk tick \<Rightarrow>
          (if \<not> TickValid tick then Inr (newError b ErrBrokenTick)
           else if Before (Tick.Datetime tick) (lastTickTime b) then Inl PanicTickBeforeSeen
           else
             (case proceedStoredRequests (b\<lparr>lastTickTime := Tick.Datetime tick\<rparr>) t of
                Inl p \<Rightarrow> Inl p
              | Inr b' \<Rightarrow> findExecutions b' e))
      | _ \<Rightarrow> Inl PanicUnexpectedBrokerEvent)"

definition onCandleOpen :: "simBrokerWorker \<Rightarrow> event \<Rightarrow> panic + simBrokerWorker" where
  "onCandleOpen b e =
     (case e of
        CandleOpenEvent t tk candleTime price tf \<Rightarrow>
          (if Before candleTime (lastCandleTime b) then Inl PanicCandleBeforeSeen
           else
             (case proceedStoredRequests (b\<lparr>lastCandleTime := candleTime\<rparr>) t of
                Inl p \<Rightarrow> Inl p
              | Inr b' \<Rightarrow> findExecutions b' e))
      | _ \<Rightarrow> Inl PanicUnexpectedBrokerEvent)"

definition onCandleClose :: "simBrokerWorker \<Rightarrow> event \<Rightarrow> panic + simBrokerWorker" where
  "onCandleClose b e =
     (case e of
        CandleCloseEvent t tk c tf \<Rightarrow>
          (if Before t (lastCandleTime b) then Inl PanicCandleBeforeSeen
           else
             (case proceedStoredRequests (b\<lparr>lastCandleTime := t\<rparr>) t of
                Inl p \<Rightarrow> Inl p
              | Inr b' \<Rightarrow> findExecutions b' e))
      | _ \<Rightarrow> Inl PanicUnexpectedBrokerEvent)"

fun notify :: "simBrokerWorker \<Rightarrow> event \<Rightarrow> panic + simBrokerWorker" where
  "notify b (NewOrderEvent t tk linkedOrder) =
     Inr (addRequestEvent b (NewOrderEvent t tk linkedOrder))"
| "notify b (OrderCancelRequestEvent t tk ordId) =
     Inr (addRequestEvent b (OrderCancelRequestEvent t tk ordId))"
| "notify b (OrderReplaceRequestEvent t tk ordId newPrice) =
     Inr (addRequestEvent b (OrderReplaceRequestEvent t tk ordId newPrice))"
| "notify b (NewTickEvent t tk tick) = onTick b (NewTickEvent t tk tick)"
| "notify b (CandleOpenEvent t tk candleTime price tf) =
     onCandleOpen b (CandleOpenEvent t tk candleTime price tf)"
| "notify b (CandleCloseEvent t tk c tf) = onCandleClose b (CandleCloseEvent t tk c tf)"
| "notify b _ = Inl PanicUnexpectedBrokerEvent"

text \<open>A run of the worker on a sequence of events, up to the first panic.\<close>

fun notifyAll :: "simBrokerWorker \<Rightarrow> event list \<Rightarrow> panic + simBrokerWorker" where
  "notifyAll b [] = Inr b"
| "notifyAll b (e # es) =
     (case notify b e of
        Inl p \<Rightarrow> Inl p
      | Inr b' \<Rightarrow> notifyAll b' es)"

subsection \<open>Example values\<close>

definition utc :: "int \<Rightarrow> GoTime" where
  "utc n = \<lparr>nsec = n, loc = UTC\<rparr>"

definition ex_instr :: Instrument where
  "ex_instr =
     \<lparr>InstrAddr = 1, Symbol = ''SYM'',
      Exchange = \<lparr>MarketOpenTime = \<lparr>Hour = 9, Minute = 30, Second = 0\<rparr>,
                  MarketCloseTime = \<lparr>Hour = 16, Minute = 0, Second = 0\<rparr>\<rparr>\<rparr>"

text \<open>A buy limit order at 100 for 10 lots, good for the day, of 2024-01-15 14:30:00 UTC.\<close>

definition ex_order :: Order where
  "ex_order =
     \<lparr>Id = ''o1'', Side = OrderBuy, Qty = 10, Ticker = ex_instr, Price = Fin 100,
      State = NewOrder, ExecQty = 0, Type = LimitOrder, Tif = DayTIF,
      Time = utc 1705329000000000000, OrderValid = True\<rparr>"

text \<open>A worker with a delay of 100 ms and nothing stored.\<close>

definition ex_worker :: simBrokerWorker where
  "ex_worker =
     \<lparr>symbol = ex_instr, delay = 100, strictLimitOrders = False, orders = [],
      generatedEvents = [], requestEvents = [], lastTickTime = utc 0, lastCandleTime = utc 0,
      events = [], errChan = []\<rparr>"

subsection \<open>Notions used to state and prove the properties of matching\<close>

text \<open>The order id that a response event carries in its field \<open>OrdId\<close>.\<close>

fun eventOrdId :: "event \<Rightarrow> string option" where
  "eventOrdId (OrderConfirmationEvent t tk ordId) = Some ordId"
| "eventOrdId (OrderCancelRejectEvent t tk ordId r) = Some ordId"
| "eventOrdId (OrderReplaceRejectEvent t tk ordId r) = Some ordId"
| "eventOrdId (OrderCancelEvent t tk ordId) = Some ordId"
| "eventOrdId (OrderReplacedEvent t tk ordId newPrice) = Some ordId"
| "eventOrdId (OrderFillEvent t tk ordId price qty) = Some ordId"
| "eventOrdId (OrderRejectedEvent t tk ordId r) = Some ordId"
| "eventOrdId _ = None"

text \<open>
  Every order is stored under its own id, as \<open>onNewOrder\<close>, the only place where the map
  is extended, stores it.
\<close>

definition ordersKeyed :: "simBrokerWorker \<Rightarrow> bool" where
  "ordersKeyed b = (\<forall>(k, ord)\<in>set (orders b). Id (Order' ord) = k)"

text \<open>
  The conditions under which \<open>findExecutions\<close> looks at an order on a market-data event
  and finds the time of the event after the instant \<open>x\<close>: the order is for the instrument
  of the event, its last state update is before the event, and the time compared with
  the expiration is after \<open>x\<close>. The three kinds of events read these from different
  fields.
\<close>

definition dueOn :: "event \<Rightarrow> simBrokerOrder \<Rightarrow> GoTime \<Rightarrow> bool" where
  "dueOn mdEvent ord x =
     (case mdEvent of
        NewTickEvent t tk tick \<Rightarrow>
          Symbol (Order.Ticker (Order' ord)) = Symbol tk
          \<and> Before (StateUpdTime ord) (Tick.Datetime tick) \<and> After (Tick.Datetime tick) x
      | CandleCloseEvent t tk c tf \<Rightarrow>
          Symbol (Order.Ticker (Order' ord)) = Symbol (Candle.Ticker c)
          \<and> Before (StateUpdTime ord) t \<and> After (Candle.Datetime c) x
      | CandleOpenEvent t tk candleTime price tf \<Rightarrow>
          InstrAddr (Order.Ticker (Order' ord)) = InstrAddr tk
          \<and> Before (StateUpdTime ord) candleTime \<and> After candleTime x
      | _ \<Rightarrow> False)"

text \<open>
  What one pass of a loop body for the key \<open>k'\<close> may change: only the order stored under
  \<open>k'\<close>, and of it only the broker's own fields; the buffer of generated events and the
  slice \<open>genEvents\<close> grow at the end, the latter by events for \<open>k'\<close>; nothing is sent.
\<close>

definition stepFrame ::
  "string \<Rightarrow> simBrokerWorker \<times> event list \<Rightarrow> simBrokerWorker \<times> event list \<Rightarrow> bool" where
  "stepFrame k' s s' =
     ((\<forall>k. k \<noteq> k' \<longrightarrow> map_of (orders (fst s')) k = map_of (orders (fst s)) k) \<and>
      (\<forall>ord'. map_of (orders (fst s')) k' = Some ord' \<longrightarrow>
         (\<exists>ord. map_of (orders (fst s)) k' = Some ord \<and> Order' ord' = Order' ord)) \<and>
      (\<exists>xs. generatedEvents (fst s') = generatedEvents (fst s) @ xs) \<and>
      (\<exists>ys. snd s' = snd s @ ys \<and> (\<forall>e\<in>set ys. eventOrdId e = Some k')) \<and>
      events (fst s') = events (fst s))"

section \<open>The strategy runtime\<close>

subsection \<open>Trades\<close>

datatype TradeType = FlatTrade | LongTrade | ShortTrade | ClosedTrade

text \<open>
  The trade type and its methods are declared in a file of the repository that is not
  among the sources. The runtime reads the fields \<open>Type\<close>, \<open>Qty\<close> and \<open>ConfirmedOrders\<close>;
  the other fields are those the specification lists for a trade (average open price,
  realised profit, canceled and rejected orders, the list of fills).
\<close>

record Trade =
  Type :: TradeType
  Qty :: int64
  OpenPrice :: real
  ClosedPnL :: real
  ConfirmedOrders :: "(string \<times> Order) list"
  CanceledOrders :: "(string \<times> Order) list"
  Fills :: "(string \<times> int64 \<times> real \<times> GoTime) list"

definition newFlatTrade :: Trade where
  "newFlatTrade =
     \<lparr>Type = FlatTrade, Qty = 0, OpenPrice = 0, ClosedPnL = 0, ConfirmedOrders = [],
      CanceledOrders = [], Fills = []\<rparr>"

text \<open>
  Modelled from the spec: \<open>Trade.hasConfirmedOrderWithId\<close>, whose body is missing. The
  specification keeps "the set of confirmed orders keyed by identifier"; the method
  tells whether the identifier is a key of it.
\<close>

definition hasConfirmedOrderWithId :: "Trade \<Rightarrow> string \<Rightarrow> bool" where
  "hasConfirmedOrderWithId t ordId = (map_of (ConfirmedOrders t) ordId \<noteq> None)"

text \<open>
  Modelled from the spec: \<open>Trade.cancelOrder\<close>, whose body is missing. The specification
  says of cancels: "move order to terminal set"; an order that is not among the
  confirmed ones is an error that leaves the trade as it is.
\<close>

definition cancelOrder :: "Trade \<Rightarrow> string \<Rightarrow> error + Trade" where
  "cancelOrder t ordId =
     (case map_of (ConfirmedOrders t) ordId of
        None \<Rightarrow> Inl (ErrOrderNotFoundInConfirmedMap ordId)
      | Some ord \<Rightarrow>
          Inr (t\<lparr>ConfirmedOrders := AList.delete ordId (ConfirmedOrders t),
                 CanceledOrders :=
                   AList.update ordId (ord\<lparr>State := CanceledOrder\<rparr>) (CanceledOrders t)\<rparr>))"

text \<open>The signed position of a trade, and the absolute value of an \<open>int64\<close>.\<close>

definition signedQty :: "Trade \<Rightarrow> int64" where
  "signedQty t =
     (if Trade.Type t = LongTrade then Trade.Qty t
      else if Trade.Type t = ShortTrade then - Trade.Qty t else 0)"

definition abs64 :: "int64 \<Rightarrow> int64" where
  "abs64 x = (if x <s 0 then - x else x)"

definition recordFill :: "Trade \<Rightarrow> string \<Rightarrow> Order \<Rightarrow> int64 \<Rightarrow> real \<Rightarrow> GoTime \<Rightarrow> Trade" where
  "recordFill t ordId ord qty p tm =
     t\<lparr>ConfirmedOrders :=
         AList.update ordId
           (ord\<lparr>ExecQty := ExecQty ord + qty,
                State := (if ExecQty ord + qty = Order.Qty ord then FilledOrder
                          else PartialFilledOrder)\<rparr>)
           (ConfirmedOrders t),
       Fills := Fills t @ [(ordId, qty, p, tm)]\<rparr>"

text \<open>
  Modelled from the spec: \<open>Trade.executeOrder\<close>, whose body is missing. From the section
  on the order and trade engine: the order must belong to the trade and be Confirmed or
  PartialFilled; "Fill on unknown order: reported as error, event discarded. Fill after
  trade closed: error. Negative/zero fill quantity: error. NaN or non-positive price:
  error. Errors are surfaced (not fatal) and do not mutate state." Otherwise the signed
  delta is side times quantity. When the position is zero or the fill goes the same way,
  the open price becomes the quantity-weighted average. When it goes the other way, the
  offsetting part realises \<open>(fill price - open price) * closed quantity * sign\<close>; when the
  position reaches zero the trade becomes Closed and a new trade is returned, which
  receives the residual, if any, on the opposite side. The result is the error, or the
  trade as updated together with the new trade, if one was opened.
\<close>

definition executeOrder ::
  "Trade \<Rightarrow> string \<Rightarrow> int64 \<Rightarrow> float64 \<Rightarrow> GoTime \<Rightarrow> error + (Trade \<times> Trade option)" where
  "executeOrder t ordId qty price tm =
     (case map_of (ConfirmedOrders t) ordId of
        None \<Rightarrow> Inl (ErrOrderNotFoundInConfirmedMap ordId)
      | Some ord \<Rightarrow>
          (if Trade.Type t = ClosedTrade then Inl ErrTradeClosed
           else if State ord \<noteq> ConfirmedOrder \<and> State ord \<noteq> PartialFilledOrder then
             Inl (ErrOrderStateForFill ordId)
           else if qty \<le>s 0 then Inl ErrExecQty
           else
             (case price of
                NaN \<Rightarrow> Inl ErrPrice
              | Fin p \<Rightarrow>
                  (if p \<le> 0 then Inl ErrPrice
                   else if Side ord \<noteq> OrderBuy \<and> Side ord \<noteq> OrderSell then
                     Inl (ErrUnknownOrderSide ordId)
                   else
                     (let delta = (if Side ord = OrderBuy then qty else - qty);
                          cur = signedQty t;
                          t1 = recordFill t ordId ord qty p tm
                      in if cur = 0 \<or> (0 <s cur \<and> 0 <s delta) \<or> (cur <s 0 \<and> delta <s 0) then
                           Inr (t1\<lparr>Type := (if 0 <s cur + delta then LongTrade else ShortTrade),
                                   Qty := abs64 (cur + delta),
                                   OpenPrice :=
                                     (OpenPrice t * real_of_int (sint (abs64 cur))
                                        + p * real_of_int (sint qty))
                                       / real_of_int (sint (abs64 cur) + sint qty)\<rparr>,
                                None)
                         else if abs64 delta <s abs64 cur then
                           Inr (t1\<lparr>Qty := abs64 cur - abs64 delta,
                                   ClosedPnL :=
                                     ClosedPnL t
                                       + (p - OpenPrice t) * real_of_int (sint (abs64 delta))
                                           * (if 0 <s cur then 1 else - 1)\<rparr>,
                                None)
                         else
                           Inr (t1\<lparr>Type := ClosedTrade, Qty := 0,
                                   ClosedPnL :=
                                     ClosedPnL t
                                       + (p - OpenPrice t) * real_of_int (sint (abs64 cur))
                                           * (if 0 <s cur then 1 else - 1)\<rparr>,
                                Some (if abs64 delta = abs64 cur then newFlatTrade
                                      else newFlatTrade
                                             \<lparr>Type := (if 0 <s delta then LongTrade
                                                        else ShortTrade),
                                              Qty := abs64 delta - abs64 cur,
                                              OpenPrice := p\<rparr>)))))))"

subsection \<open>The runtime state and its API\<close>

text \<open>
  \<open>waitingConfirmation\<close> is a \<open>map[string]struct{}\<close>, a set of tokens. \<open>ch_errors\<close>,
  \<open>ch_events\<close> and \<open>ch_portfolio\<close> are the values sent so far on the channels
  \<open>ch.errors\<close>, \<open>ch.events\<close> and \<open>ch.portfolio\<close>. \<open>Ticks\<close> and \<open>Candles\<close> are arrays of
  pointers, \<open>None\<close> being \<open>nil\<close>.
\<close>

record BasicStrategy =
  symbol :: Instrument
  nPeriods :: int
  waitingConfirmation :: "string set"
  waitingN :: int32
  closedTrades :: "Trade list"
  currentTrade :: Trade
  Ticks :: "Tick option list"
  Candles :: "Candle option list"
  lastCandleOpen :: float64
  lastCandleOpenTime :: GoTime
  mostRecentTime :: GoTime
  ch_errors :: "error list"
  ch_events :: "event list"
  ch_portfolio :: "(GoTime \<times> Instrument \<times> Trade) list"

definition Position :: "BasicStrategy \<Rightarrow> int64" where
  "Position b =
     (if Trade.Type (currentTrade b) = FlatTrade \<or> Trade.Type (currentTrade b) = ClosedTrade
      then 0
      else
        (let pos = Trade.Qty (currentTrade b) in
         if Trade.Type (currentTrade b) = ShortTrade then - pos else pos))"

definition strategyError :: "BasicStrategy \<Rightarrow> error \<Rightarrow> BasicStrategy" where
  "strategyError b err = b\<lparr>ch_errors := ch_errors b @ [err]\<rparr>"

definition newSignal :: "BasicStrategy \<Rightarrow> event \<Rightarrow> BasicStrategy" where
  "newSignal b e = b\<lparr>ch_events := ch_events b @ [e]\<rparr>"

definition seeTime :: "BasicStrategy \<Rightarrow> GoTime \<Rightarrow> BasicStrategy" where
  "seeTime b t = (if After t (mostRecentTime b) then b\<lparr>mostRecentTime := t\<rparr> else b)"

text \<open>\<open>CancelOrder\<close> and \<open>ReplaceOrder\<close> return the error (\<open>None\<close> being \<open>nil\<close>) and the state.\<close>

definition CancelOrder :: "BasicStrategy \<Rightarrow> string \<Rightarrow> error option \<times> BasicStrategy" where
  "CancelOrder b ordID =
     (if ordID = [] then (Some (ErrOrderIdIncorrect ordID), b)
      else if \<not> hasConfirmedOrderWithId (currentTrade b) ordID then
        (Some (ErrOrderNotFoundInConfirmedMap ordID), b)
      else
        (case map_of (ConfirmedOrders (currentTrade b)) ordID of
           None \<Rightarrow> (Some (ErrOrderNotFoundInConfirmedMap ordID), b)
         | Some ord \<Rightarrow>
             (let cancelReq =
                    OrderCancelRequestEvent (Add (mostRecentTime b) (20 * Microsecond))
                      (Order.Ticker ord) ordID;
                  reqID = ''$CAN$'' @ ordID
              in if reqID \<in> waitingConfirmation b then (Some ErrAlreadyWaiting, b)
                 else
                   (None,
                    newSignal
                      (b\<lparr>waitingConfirmation := insert reqID (waitingConfirmation b),
                         waitingN := waitingN b + 1\<rparr>)
                      cancelReq))))"

definition ReplaceOrder ::
  "BasicStrategy \<Rightarrow> string \<Rightarrow> float64 \<Rightarrow> error option \<times> BasicStrategy" where
  "ReplaceOrder b ordID newPrice =
     (if ordID = [] then (Some (ErrOrderIdIncorrect ordID), b)
      else if \<not> hasConfirmedOrderWithId (currentTrade b) ordID then
        (Some (ErrOrderNotFoundInConfirmedMap ordID), b)
      else
        (let replaceReq =
               OrderReplaceRequestEvent (Add (mostRecentTime b) (20 * Microsecond))
                 (BasicStrategy.symbol b) ordID newPrice;
             reqID = ''$REP$'' @ ordID
         in if reqID \<in> waitingConfirmation b then (Some ErrAlreadyWaiting, b)
            else
              (None,
               newSignal
                 (b\<lparr>waitingConfirmation := insert reqID (waitingConfirmation b),
                    waitingN := waitingN b + 1\<rparr>)
                 replaceReq)))"

subsection \<open>Handlers of broker responses\<close>

text \<open>The handlers take the fields of the event they handle.\<close>

definition onOrderCancelHandler :: "BasicStrategy \<Rightarrow> GoTime \<Rightarrow> string \<Rightarrow> BasicStrategy" where
  "onOrderCancelHandler b t ordId =
     (let b1 = seeTime b t;
          b2 = b1\<lparr>waitingN := waitingN b1 - 1,
                  waitingConfirmation := waitingConfirmation b1 - {''&CAN&'' @ ordId}\<rparr>
      in case cancelOrder (currentTrade b2) ordId of
           Inl err \<Rightarrow> strategyError b2 err
         | Inr tr \<Rightarrow> b2\<lparr>currentTrade := tr\<rparr>)"

definition onOrderCancelRejectHandler ::
  "BasicStrategy \<Rightarrow> GoTime \<Rightarrow> string \<Rightarrow> BasicStrategy" where
  "onOrderCancelRejectHandler b t ordId =
     (let b1 = seeTime b t
      in b1\<lparr>waitingN := waitingN b1 - 1,
            waitingConfirmation := waitingConfirmation b1 - {''&CAN&'' @ ordId}\<rparr>)"

definition onOrderReplaceRejectHandler ::
  "BasicStrategy \<Rightarrow> GoTime \<Rightarrow> string \<Rightarrow> BasicStrategy" where
  "onOrderReplaceRejectHandler b t ordId =
     (let b1 = seeTime b t
      in b1\<lparr>waitingN := waitingN b1 - 1,
            waitingConfirmation := waitingConfirmation b1 - {''&REP&'' @ ordId}\<rparr>)"

text \<open>
  \<open>onOrderFillHandler\<close>, at the fields of the fill event: time, instrument, order id,
  price and quantity. The three checks at its head send an error and go on.
\<close>

definition notifyPortfolioAboutPosition ::
  "BasicStrategy \<Rightarrow> GoTime \<Rightarrow> BasicStrategy" where
  "notifyPortfolioAboutPosition b t =
     b\<lparr>ch_portfolio := ch_portfolio b @ [(t, BasicStrategy.symbol b, currentTrade b)]\<rparr>"

definition onOrderFillHandler ::
  "BasicStrategy \<Rightarrow> GoTime \<Rightarrow> Instrument \<Rightarrow> string \<Rightarrow> float64 \<Rightarrow> int64 \<Rightarrow> BasicStrategy" where
  "onOrderFillHandler b t tk ordId price qty =
     (let b1 = seeTime b t;
          b2 = (if InstrAddr tk \<noteq> InstrAddr (BasicStrategy.symbol b1)
                then strategyError b1 ErrMismatchSymbols else b1);
          b3 = (if qty \<le>s 0 then strategyError b2 ErrExecQty else b2);
          b4 = (if IsNaN price \<or> flt_le price (Fin 0) then strategyError b3 ErrPrice else b3);
          prevState = Trade.Type (currentTrade b4)
      in case executeOrder (currentTrade b4) ordId qty price t of
           Inl err \<Rightarrow> strategyError b4 err
         | Inr (tr, newPos) \<Rightarrow>
             (let b5 = b4\<lparr>currentTrade := tr\<rparr> in
              case newPos of
                Some np \<Rightarrow>
                  (if Trade.Type (currentTrade b5) \<noteq> ClosedTrade then
                     strategyError b5 ErrNewPosNotClosed
                   else
                     notifyPortfolioAboutPosition
                       (b5\<lparr>closedTrades := closedTrades b5 @ [currentTrade b5],
                           currentTrade := np\<rparr>) t)
              | None \<Rightarrow>
                  (if prevState = FlatTrade then notifyPortfolioAboutPosition b5 t else b5)))"

subsection \<open>History handlers\<close>

text \<open>
  \<open>sort.SliceStable\<close> with the comparison \<open>Datetime.Unix() < Datetime.Unix()\<close>: a stable
  sort on the whole second. The arrays sorted hold no \<open>nil\<close>.
\<close>

definition tickSecond :: "Tick option \<Rightarrow> int" where
  "tickSecond v = (case v of None \<Rightarrow> 0 | Some tick \<Rightarrow> Unix (Tick.Datetime tick))"

definition candleSecond :: "Candle option \<Rightarrow> int" where
  "candleSecond v = (case v of None \<Rightarrow> 0 | Some c \<Rightarrow> Unix (Candle.Datetime c))"

text \<open>
  \<open>xs[len(xs)-n:]\<close> when \<open>len(xs) > n\<close>, else \<open>xs\<close>; a negative \<open>n\<close> puts the lower bound
  beyond the length, and the slice expression panics.
\<close>

definition lastPeriods :: "int \<Rightarrow> 'a list \<Rightarrow> panic + 'a list" where
  "lastPeriods n xs =
     (if int (length xs) > n then
        (if n < 0 then Inl PanicSliceBounds else Inr (drop (length xs - nat n) xs))
      else Inr xs)"

fun checkTicks :: "Tick option list \<Rightarrow> Tick option list \<Rightarrow> Tick option list" where
  "checkTicks [] checkedTicks = checkedTicks"
| "checkTicks (None # vs) checkedTicks = checkTicks vs checkedTicks"
| "checkTicks (Some tick # vs) checkedTicks =
     (if \<not> TickValid tick then checkTicks vs checkedTicks
      else checkTicks vs (checkedTicks @ [Some tick]))"

definition onTickHistoryHandler ::
  "BasicStrategy \<Rightarrow> Tick option list \<Rightarrow> panic + BasicStrategy" where
  "onTickHistoryHandler b eTicks =
     (if eTicks = [] then Inr b
      else
        (let allTicks = Ticks b @ eTicks;
             checkedTicks = sort_key tickSecond (checkTicks allTicks [])
         in case lastPeriods (nPeriods b) checkedTicks of
              Inl p \<Rightarrow> Inl p
            | Inr w \<Rightarrow> Inr (b\<lparr>Ticks := w\<rparr>)))"

text \<open>
  The loop of \<open>onCandleHistoryHandler\<close> over \<open>allCandles\<close>. \<open>listedCandleTimes\<close> is a map
  keyed on \<open>time.Time\<close>: two time stamps are the same key when they are \<open>==\<close>, that is
  when they have the same instant and the same location pointer.
\<close>

definition candleKey :: "Candle \<Rightarrow> int \<times> nat" where
  "candleKey c = timeKey (Candle.Datetime c)"

fun checkCandles ::
  "Candle option list \<Rightarrow> (int \<times> nat) set \<Rightarrow> Candle option list \<Rightarrow> Candle option list" where
  "checkCandles [] listedCandleTimes checkedCandles = checkedCandles"
| "checkCandles (None # vs) listedCandleTimes checkedCandles =
     checkCandles vs listedCandleTimes checkedCandles"
| "checkCandles (Some c # vs) listedCandleTimes checkedCandles =
     (if \<not> CandleValid c then checkCandles vs listedCandleTimes checkedCandles
      else if candleKey c \<in> listedCandleTimes then
        checkCandles vs listedCandleTimes checkedCandles
      else
        checkCandles vs (insert (candleKey c) listedCandleTimes)
          (checkedCandles @ [Some c]))"

definition updateLastCandleOpen :: "BasicStrategy \<Rightarrow> panic + BasicStrategy" where
  "updateLastCandleOpen b =
     (if Candles b = [] then Inr b
      else
        (case last (Candles b) of
           None \<Rightarrow> Inl PanicNilDereference
         | Some lastCandleInHist \<Rightarrow>
             (if After (Candle.Datetime lastCandleInHist) (lastCandleOpenTime b) then
                Inr (b\<lparr>lastCandleOpen := Open lastCandleInHist,
                       lastCandleOpenTime := Candle.Datetime lastCandleInHist\<rparr>)
              else Inr b)))"

definition onCandleHistoryHandler ::
  "BasicStrategy \<Rightarrow> Candle option list \<Rightarrow> panic + BasicStrategy" where
  "onCandleHistoryHandler b eCandles =
     (if eCandles = [] then Inr b
      else
        (let allCandles = Candles b @ eCandles;
             checkedCandles = sort_key candleSecond (checkCandles allCandles {} [])
         in case lastPeriods (nPeriods b) checkedCandles of
              Inl p \<Rightarrow> Inl p
            | Inr w \<Rightarrow> updateLastCandleOpen (b\<lparr>Candles := w\<rparr>)))"

text \<open>
  A condition on an array of candles: two valid candles whose time stamps are not \<open>==\<close>
  (they differ in the instant or in the location pointer) lie in different seconds.
\<close>

definition distinctSeconds :: "Candle option list \<Rightarrow> bool" where
  "distinctSeconds cs =
     (\<forall>v\<in>set cs. \<forall>v'\<in>set cs.
        case (v, v') of
          (Some c, Some c') \<Rightarrow>
            CandleValid c \<and> CandleValid c' \<and> candleKey c \<noteq> candleKey c'
              \<longrightarrow> Unix (Candle.Datetime c) \<noteq> Unix (Candle.Datetime c')
        | _ \<Rightarrow> True)"

subsection \<open>Example values of the runtime\<close>

text \<open>A runtime with a window of 5 periods, a flat trade and nothing pending.\<close>

definition ex_strategy :: BasicStrategy where
  "ex_strategy =
     \<lparr>symbol = ex_instr, nPeriods = 5, waitingConfirmation = {}, waitingN = 0,
      closedTrades = [], currentTrade = newFlatTrade, Ticks = [], Candles = [],
      lastCandleOpen = Fin 0, lastCandleOpenTime = utc 0, mostRecentTime = utc 0,
      ch_errors = [], ch_events = [], ch_portfolio = []\<rparr>"

text \<open>The same runtime, whose trade holds the example order, confirmed.\<close>

definition ex_strategy_o1 :: BasicStrategy where
  "ex_strategy_o1 =
     ex_strategy
       \<lparr>currentTrade :=
          newFlatTrade\<lparr>ConfirmedOrders := [(''o1'', ex_order\<lparr>State := ConfirmedOrder\<rparr>)]\<rparr>\<rparr>"

text \<open>A valid tick with a trade, at a time given in nanoseconds.\<close>

definition ex_tick :: "int \<Rightarrow> float64 \<Rightarrow> int64 \<Rightarrow> Tick" where
  "ex_tick n lastPrice lastSize =
     \<lparr>Tick.Datetime = utc n, Ticker = ex_instr, LastPrice = lastPrice, LastSize = lastSize,
      BidPrice = NaN, BidSize = 0, AskPrice = NaN, AskSize = 0, IsOpening = False,
      IsClosing = False, TickHasTrade = True, TickHasQuote = False, TickValid = True\<rparr>"

text \<open>A valid candle at a time given in nanoseconds.\<close>

definition ex_candle :: "int \<Rightarrow> real \<Rightarrow> Candle" where
  "ex_candle n p =
     \<lparr>Candle.Datetime = utc n, Ticker = ex_instr, Open = Fin p, High = Fin p, Low = Fin p,
      Close = Fin p, CandleValid = True, CandleIsOpening = False, CandleIsClosing = False\<rparr>"

text \<open>The example order as the worker holds it once it is confirmed.\<close>

definition ex_confirmed :: simBrokerOrder where
  "ex_confirmed =
     \<lparr>Order' = ex_order, BrokerState = ConfirmedOrder,
      StateUpdTime = utc 1705329000200000000, BrokerExecQty = 0, BrokerPrice = Fin 100\<rparr>"

text \<open>
  Three buffered requests: the example order, a cancel for an order that does not
  exist 20 microseconds later, and a cancel for the example order 400 ms later.
\<close>

definition ex_requests :: "event list" where
  "ex_requests =
     [NewOrderEvent (utc 1705329000000000000) ex_instr ex_order,
      OrderCancelRequestEvent (utc 1705329000000020000) ex_instr ''zz'',
      OrderCancelRequestEvent (utc 1705329000400000000) ex_instr ''o1'']"

text \<open>
  A history of candles out of order, with a \<open>nil\<close> and a second candle for the same
  time stamp.
\<close>

definition ex_history :: "Candle option list" where
  "ex_history =
     [Some (ex_candle 3000000000 103), Some (ex_candle 1000000000 101), None,
      Some (ex_candle 2000000000 102), Some (ex_candle 1000000000 99)]"

text \<open>The example worker holding the example order, confirmed.\<close>

definition ex_worker_o1 :: simBrokerWorker where
  "ex_worker_o1 = ex_worker\<lparr>orders := [(''o1'', ex_confirmed)]\<rparr>"

text \<open>A tick at 101 for 5 lots, as the event that carries it.\<close>

definition ex_tick_event :: "int \<Rightarrow> event" where
  "ex_tick_event n = NewTickEvent (utc n) ex_instr (ex_tick n (Fin 101) 5)"

text \<open>
  A valid candle stamped one second after the epoch in a zone at +05:30; \<open>a\<close> is the
  location object that parsing the time stamp made.
\<close>

definition ex_candle_at :: "nat \<Rightarrow> real \<Rightarrow> Candle" where
  "ex_candle_at a p =
     (ex_candle 1000000000 p)
       \<lparr>Candle.Datetime := \<lparr>nsec = 1000000000, loc = FixedZone a 19800\<rparr>\<rparr>"

text \<open>A daily candle at 99, as the close event that carries it at the time \<open>t\<close>.\<close>

definition ex_close_event :: "int \<Rightarrow> int \<Rightarrow> event" where
  "ex_close_event t n = CandleCloseEvent (utc t) ex_instr (ex_candle n 99) ''D''"

text \<open>
  A zone at -04:00 whose clocks go forward to -03:00 at its midnight of 2024-09-08
  (04:00:00 UTC), as those of America/Santiago do, and the example order submitted
  there on 2024-09-07 at 10:00:00 of the wall clock.
\<close>

definition ex_zone :: Location where
  "ex_zone = \<lparr>locAddr = 5, zoneFirst = - 14400, zoneTx = [(1725768000, - 10800)]\<rparr>"

definition ex_zone_order :: simBrokerOrder where
  "ex_zone_order =
     ex_confirmed\<lparr>Order' := ex_order\<lparr>Time := \<lparr>nsec = 1725717600000000000, loc = ex_zone\<rparr>\<rparr>\<rparr>"

text \<open>A tick with a trade at the price \<open>p\<close> for \<open>s\<close> lots, as the event that carries it.\<close>

definition ex_trade_event :: "int \<Rightarrow> real \<Rightarrow> int64 \<Rightarrow> event" where
  "ex_trade_event n p s = NewTickEvent (utc n) ex_instr (ex_tick n (Fin p) s)"

section \<open>Broker latency\<close>

lemma sint_round_trip:
  fixes d :: int64
  assumes "- (2 ^ 63) \<le> 2 * sint d * 1000000" and "2 * sint d * 1000000 < 2 ^ 63"
  shows "sint (d * 2 * 1000000) = 2 * sint d * 1000000"
proof -
  have a: "d * 2 * 1000000 = d * 2000000" by simp
  have c: "sint (2000000::int64) = 2000000" by simp
  have "sint (d * 2 * 1000000) = sint (d * 2000000)" by (simp only: a)
  also have "\<dots> = signed_take_bit 63 (sint d * sint (2000000::int64))"
    by (simp add: sint_word_mult)
  also have "\<dots> = signed_take_bit 63 (sint d * 2000000)" by (simp only: c)
  also have "\<dots> = sint d * 2000000"
    using assms by (intro signed_take_bit_int_eq_self) simp_all
  finally show ?thesis by simp
qed

lemma addBrokerEvent_Rejected:
  "map_of (orders b) k = Some ord \<Longrightarrow>
   \<exists>b'. addBrokerEvent b (OrderRejectedEvent t tk k r) = Inr b' \<and>
        generatedEvents b' = generatedEvents b @ [OrderRejectedEvent t tk k r]"
  by (simp add: addBrokerEvent_def updOrder_def)

lemma addBrokerEvent_Confirmation:
  "map_of (orders b) k = Some ord \<Longrightarrow>
   \<exists>b'. addBrokerEvent b (OrderConfirmationEvent t tk k) = Inr b' \<and>
        generatedEvents b' = generatedEvents b @ [OrderConfirmationEvent t tk k]"
  by (simp add: addBrokerEvent_def updOrder_def)

text \<open>
  Claim C1. A new-order request with time stamp \<open>t\<close> handled by the worker always
  returns (no panic) and appends exactly one event to the buffer of generated events: a
  confirmation when the order is valid and its id is not yet known to the worker, a
  rejection otherwise (invalid order, or duplicate id). In the three cases the time stamp
  of the event is \<open>t.Add(time.Duration(delay*2) * time.Millisecond)\<close>. The product is
  computed on \<open>int64\<close>; whenever \<open>2 * delay * 10^6\<close> nanoseconds are representable there,
  the time stamp of the event minus \<open>t\<close> is exactly \<open>2 * delay\<close> milliseconds.
\<close>

theorem onNewOrder_response_time:
  "\<exists>b' ev. onNewOrder b t tk linkedOrder = Inr b' \<and>
      generatedEvents b' = generatedEvents b @ [ev] \<and>
      ev = (if OrderValid linkedOrder \<and> map_of (orders b) (Id linkedOrder) = None
            then OrderConfirmationEvent (getTime ev) tk (Id linkedOrder)
            else OrderRejectedEvent (getTime ev) tk (Id linkedOrder)
                   (if OrderValid linkedOrder then ReasonIdExists else ReasonOrderNotValid)) \<and>
      getTime ev = Add t (delay b * 2 * Millisecond) \<and>
      (- (2 ^ 63) \<le> 2 * sint (delay b) * 1000000 \<and> 2 * sint (delay b) * 1000000 < 2 ^ 63 \<longrightarrow>
         nsec (getTime ev) - nsec t = 2 * sint (delay b) * 1000000)"
proof -
  let ?tc = "Add t (delay b * 2 * Millisecond)"
  have rng: "- (2 ^ 63) \<le> 2 * sint (delay b) * 1000000
               \<and> 2 * sint (delay b) * 1000000 < 2 ^ 63 \<longrightarrow>
             nsec ?tc - nsec t = 2 * sint (delay b) * 1000000"
    using sint_round_trip [of "delay b"] by (simp add: Add_def Millisecond_def)
  consider (invalid) "\<not> OrderValid linkedOrder"
    | (dup) "OrderValid linkedOrder" "map_of (orders b) (Id linkedOrder) \<noteq> None"
    | (fresh) "OrderValid linkedOrder" "map_of (orders b) (Id linkedOrder) = None"
    by blast
  then show ?thesis
  proof cases
    case invalid
    let ?ev = "OrderRejectedEvent ?tc tk (Id linkedOrder) ReasonOrderNotValid"
    let ?b1 = "b\<lparr>orders := AList.update (Id linkedOrder)
                        \<lparr>Order' = linkedOrder, BrokerState = RejectedOrder,
                         StateUpdTime = ?tc, BrokerExecQty = 0,
                         BrokerPrice = Fin 0\<rparr> (orders b)\<rparr>"
    have "map_of (orders ?b1) (Id linkedOrder) \<noteq> None" by (simp add: update_conv')
    then obtain ord where "map_of (orders ?b1) (Id linkedOrder) = Some ord" by blast
    from addBrokerEvent_Rejected [OF this, of ?tc tk ReasonOrderNotValid]
    obtain b' where "addBrokerEvent ?b1 ?ev = Inr b'"
      "generatedEvents b' = generatedEvents b @ [?ev]" by auto
    with invalid rng show ?thesis
      by (simp add: onNewOrder_def genTimeRoundTrip_def Let_def)
  next
    case dup
    let ?ev = "OrderRejectedEvent ?tc tk (Id linkedOrder) ReasonIdExists"
    from dup obtain ord where "map_of (orders b) (Id linkedOrder) = Some ord" by blast
    from addBrokerEvent_Rejected [OF this, of ?tc tk ReasonIdExists]
    obtain b' where "addBrokerEvent b ?ev = Inr b'"
      "generatedEvents b' = generatedEvents b @ [?ev]" by auto
    with dup rng show ?thesis
      by (simp add: onNewOrder_def genTimeRoundTrip_def Let_def)
  next
    case fresh
    let ?ev = "OrderConfirmationEvent ?tc tk (Id linkedOrder)"
    let ?b1 = "b\<lparr>orders := AList.update (Id linkedOrder)
                        \<lparr>Order' = linkedOrder, BrokerState = NewOrder,
                         StateUpdTime = ?tc, BrokerExecQty = 0,
                         BrokerPrice = Price linkedOrder\<rparr> (orders b)\<rparr>"
    have "map_of (orders ?b1) (Id linkedOrder) \<noteq> None" by (simp add: update_conv')
    then obtain ord where "map_of (orders ?b1) (Id linkedOrder) = Some ord" by blast
    from addBrokerEvent_Confirmation [OF this, of ?tc tk]
    obtain b' where "addBrokerEvent ?b1 ?ev = Inr b'"
      "generatedEvents b' = generatedEvents b @ [?ev]" by auto
    with fresh rng show ?thesis
      by (simp add: onNewOrder_def genTimeRoundTrip_def Let_def)
  qed
qed

text \<open>
  At the example worker (delay 100 ms) and the example order, submitted at
  2024-01-15 14:30:00: the confirmation is stamped 200 ms later.
\<close>

theorem onNewOrder_response_time_witness:
  "\<exists>b'. onNewOrder ex_worker (utc 1705329000000000000) ex_instr ex_order = Inr b' \<and>
      generatedEvents b' =
        [OrderConfirmationEvent (utc 1705329000200000000) ex_instr ''o1'']"
proof -
  from onNewOrder_response_time
    [of ex_worker "utc 1705329000000000000" ex_instr ex_order]
  obtain b' ev where
    r: "onNewOrder ex_worker (utc 1705329000000000000) ex_instr ex_order = Inr b'"
    and g: "generatedEvents b' = generatedEvents ex_worker @ [ev]"
    and e: "ev = (if OrderValid ex_order \<and> map_of (orders ex_worker) (Id ex_order) = None
            then OrderConfirmationEvent (getTime ev) ex_instr (Id ex_order)
            else OrderRejectedEvent (getTime ev) ex_instr (Id ex_order)
                   (if OrderValid ex_order then ReasonIdExists else ReasonOrderNotValid))"
    and t: "getTime ev = Add (utc 1705329000000000000) (delay ex_worker * 2 * Millisecond)"
    by blast
  have t': "getTime ev = utc 1705329000200000000"
    using t by (simp add: ex_worker_def utc_def Add_def Millisecond_def)
  have "ev = OrderConfirmationEvent (utc 1705329000200000000) ex_instr ''o1''"
    using e unfolding t' by (simp add: ex_worker_def ex_order_def)
  with r g show ?thesis by (simp add: ex_worker_def)
qed

section \<open>The strategy runtime: position, pending requests, bad fills\<close>

lemma sint_neg_int64:
  fixes x :: int64
  assumes "x \<noteq> - (2 ^ 63)"
  shows "sint (- x) = - sint x"
proof -
  have lo: "- (2 ^ 63) \<le> sint x" using sint_ge [of x] by simp
  have hi: "sint x < 2 ^ 63" using sint_lt [of x] by simp
  have "sint x \<noteq> - (2 ^ 63)"
  proof
    assume "sint x = - (2 ^ 63)"
    then have "sint x = sint (- (2 ^ 63) :: int64)" by simp
    then have "x = - (2 ^ 63)" by (rule signed_word_eqI)
    with assms show False by simp
  qed
  with lo have "- (2 ^ 63) < sint x" by linarith
  then have "signed_take_bit 63 (- sint x) = - sint x"
    using hi by (intro signed_take_bit_int_eq_self) simp_all
  then show ?thesis by (simp add: sint_word_ariths)
qed

text \<open>
  Claim C10. \<open>Position()\<close> is 0 when the current trade is Flat or Closed, the quantity
  held when it is Long, and the negation of the quantity held when it is Short. The
  negation is that of \<open>int64\<close>: read as a number it is minus the quantity, except at the
  least \<open>int64\<close>, which is its own negation.
\<close>

theorem Position_by_trade_type:
  "(Trade.Type (currentTrade b) = FlatTrade \<or> Trade.Type (currentTrade b) = ClosedTrade
      \<longrightarrow> Position b = 0) \<and>
   (Trade.Type (currentTrade b) = LongTrade \<longrightarrow> Position b = Trade.Qty (currentTrade b)) \<and>
   (Trade.Type (currentTrade b) = ShortTrade \<longrightarrow> Position b = - Trade.Qty (currentTrade b)) \<and>
   (Trade.Type (currentTrade b) = ShortTrade \<and> Trade.Qty (currentTrade b) \<noteq> - (2 ^ 63)
      \<longrightarrow> sint (Position b) = - sint (Trade.Qty (currentTrade b)))"
  by (simp add: Position_def Let_def sint_neg_int64)

text \<open>A short, a long, a closed and a flat trade.\<close>

theorem Position_by_trade_type_witness:
  "Position (ex_strategy\<lparr>currentTrade := newFlatTrade\<lparr>Type := ShortTrade, Qty := 5\<rparr>\<rparr>) = - 5
   \<and> sint (Position (ex_strategy\<lparr>currentTrade := newFlatTrade\<lparr>Type := ShortTrade, Qty := 5\<rparr>\<rparr>)) = - 5
   \<and> Position (ex_strategy\<lparr>currentTrade := newFlatTrade\<lparr>Type := LongTrade, Qty := 5\<rparr>\<rparr>) = 5
   \<and> Position (ex_strategy\<lparr>currentTrade := newFlatTrade\<lparr>Type := ClosedTrade, Qty := 5\<rparr>\<rparr>) = 0
   \<and> Position ex_strategy = 0"
  using Position_by_trade_type [of "ex_strategy\<lparr>currentTrade := newFlatTrade\<lparr>Type := ShortTrade, Qty := 5\<rparr>\<rparr>"]
        Position_by_trade_type [of "ex_strategy\<lparr>currentTrade := newFlatTrade\<lparr>Type := LongTrade, Qty := 5\<rparr>\<rparr>"]
        Position_by_trade_type [of "ex_strategy\<lparr>currentTrade := newFlatTrade\<lparr>Type := ClosedTrade, Qty := 5\<rparr>\<rparr>"]
        Position_by_trade_type [of ex_strategy]
  by (simp add: ex_strategy_def newFlatTrade_def)

text \<open>
  Claim C4, evaluated on the code. With the order \<open>o1\<close> confirmed and nothing pending,
  \<open>CancelOrder\<close> is accepted and registers the token \<open>$CAN$o1\<close>. The handler of the
  cancel-reject response removes the token \<open>&CAN&o1\<close>, which is not the one registered:
  \<open>$CAN$o1\<close> is still pending after the response, and a second \<open>CancelOrder\<close> for \<open>o1\<close>
  is refused as already waiting. The handler of the cancel response leaves \<open>$CAN$o1\<close>
  pending in the same way.
\<close>

theorem CancelOrder_token_outlives_response:
  "fst (CancelOrder ex_strategy_o1 ''o1'') = None \<and>
   waitingConfirmation (snd (CancelOrder ex_strategy_o1 ''o1'')) = {''$CAN$o1''} \<and>
   waitingConfirmation
     (onOrderCancelRejectHandler (snd (CancelOrder ex_strategy_o1 ''o1'')) (utc 5) ''o1'')
     = {''$CAN$o1''} \<and>
   fst (CancelOrder
          (onOrderCancelRejectHandler (snd (CancelOrder ex_strategy_o1 ''o1'')) (utc 5) ''o1'')
          ''o1'') = Some ErrAlreadyWaiting \<and>
   waitingConfirmation
     (onOrderCancelHandler (snd (CancelOrder ex_strategy_o1 ''o1'')) (utc 5) ''o1'')
     = {''$CAN$o1''}"
  by (simp add: CancelOrder_def onOrderCancelRejectHandler_def onOrderCancelHandler_def
      ex_strategy_o1_def ex_strategy_def newFlatTrade_def hasConfirmedOrderWithId_def
      ex_order_def newSignal_def seeTime_def After_def utc_def Let_def cancelOrder_def
      strategyError_def)

lemma executeOrder_bad_fill:
  assumes "qty \<le>s 0 \<or> IsNaN price \<or> flt_le price (Fin 0)"
  shows "\<exists>err. executeOrder t ordId qty price tm = Inl err"
proof (cases "map_of (ConfirmedOrders t) ordId")
  case None
  then show ?thesis by (simp add: executeOrder_def)
next
  case (Some ord)
  show ?thesis
  proof (cases price)
    case NaN
    with Some show ?thesis by (simp add: executeOrder_def)
  next
    case (Fin p)
    with assms have "qty \<le>s 0 \<or> p \<le> 0" by simp
    with Some Fin show ?thesis by (auto simp add: executeOrder_def)
  qed
qed

lemma currentTrade_strategyError: "currentTrade (strategyError b e) = currentTrade b"
  by (simp add: strategyError_def)

lemma currentTrade_seeTime: "currentTrade (seeTime b t) = currentTrade b"
  by (simp add: seeTime_def)

text \<open>
  Claim C3. When the fill handler of the runtime receives a fill whose quantity is zero
  or negative, or whose price is \<open>NaN\<close> or not positive, the current trade, the list of
  closed trades and the position after the handler are those before it, and the handler
  has sent the corresponding error on the error channel. The handler itself goes on
  after sending these errors; the trade is left alone because \<open>executeOrder\<close> refuses
  such a fill.
\<close>

theorem onOrderFillHandler_bad_fill:
  assumes "qty \<le>s 0 \<or> IsNaN price \<or> flt_le price (Fin 0)"
  shows "currentTrade (onOrderFillHandler b t tk ordId price qty) = currentTrade b \<and>
         closedTrades (onOrderFillHandler b t tk ordId price qty) = closedTrades b \<and>
         Position (onOrderFillHandler b t tk ordId price qty) = Position b \<and>
         (\<exists>errs. ch_errors (onOrderFillHandler b t tk ordId price qty) = ch_errors b @ errs \<and>
            (qty \<le>s 0 \<longrightarrow> ErrExecQty \<in> set errs) \<and>
            (IsNaN price \<or> flt_le price (Fin 0) \<longrightarrow> ErrPrice \<in> set errs))"
proof -
  define b1 where "b1 = seeTime b t"
  define b2 where "b2 = (if InstrAddr tk \<noteq> InstrAddr (BasicStrategy.symbol b1)
                then strategyError b1 ErrMismatchSymbols else b1)"
  define b3 where "b3 = (if qty \<le>s 0 then strategyError b2 ErrExecQty else b2)"
  define b4 where "b4 = (if IsNaN price \<or> flt_le price (Fin 0) then strategyError b3 ErrPrice else b3)"
  have ct: "currentTrade b4 = currentTrade b" "closedTrades b4 = closedTrades b"
    by (simp_all add: b4_def b3_def b2_def b1_def seeTime_def strategyError_def)
  from executeOrder_bad_fill [OF assms]
  obtain err where err: "executeOrder (currentTrade b) ordId qty price t = Inl err" by blast
  have res: "onOrderFillHandler b t tk ordId price qty = strategyError b4 err"
    using err
    by (simp add: onOrderFillHandler_def Let_def b4_def b3_def b2_def b1_def
        currentTrade_strategyError currentTrade_seeTime)
  have e1: "ch_errors b1 = ch_errors b" by (simp add: b1_def seeTime_def)
  have e2: "\<exists>xs. ch_errors b2 = ch_errors b @ xs"
    by (simp add: b2_def strategyError_def e1)
  then obtain xs where xs: "ch_errors b2 = ch_errors b @ xs" by blast
  have e3: "ch_errors b3 = ch_errors b @ xs @ (if qty \<le>s 0 then [ErrExecQty] else [])"
    by (simp add: b3_def strategyError_def xs)
  have e4: "ch_errors b4 = ch_errors b @ xs @ (if qty \<le>s 0 then [ErrExecQty] else [])
              @ (if IsNaN price \<or> flt_le price (Fin 0) then [ErrPrice] else [])"
    by (simp add: b4_def strategyError_def e3)
  have e5: "ch_errors (strategyError b4 err) = ch_errors b @ (xs @ (if qty \<le>s 0 then [ErrExecQty] else [])
              @ (if IsNaN price \<or> flt_le price (Fin 0) then [ErrPrice] else []) @ [err])"
    by (simp add: strategyError_def e4)
  have pos: "Position (strategyError b4 err) = Position b"
    by (simp add: Position_def strategyError_def ct)
  show ?thesis
    unfolding res
    apply (intro conjI)
       apply (simp add: strategyError_def ct)
      apply (simp add: strategyError_def ct)
     apply (rule pos)
    apply (rule exI, rule conjI, rule e5)
    apply simp
    done
qed

text \<open>
  A fill of quantity 0: the handler and \<open>executeOrder\<close> each report the quantity, and
  the trade is unchanged.
\<close>

theorem onOrderFillHandler_bad_fill_witness:
  "currentTrade (onOrderFillHandler ex_strategy_o1 (utc 7) ex_instr ''o1'' (Fin 100) 0)
     = currentTrade ex_strategy_o1 \<and>
   ch_errors (onOrderFillHandler ex_strategy_o1 (utc 7) ex_instr ''o1'' (Fin 100) 0)
     = [ErrExecQty, ErrExecQty]"
proof -
  have h: "(0::int64) \<le>s 0 \<or> IsNaN (Fin 100) \<or> flt_le (Fin 100) (Fin 0)" by simp
  have "ch_errors (onOrderFillHandler ex_strategy_o1 (utc 7) ex_instr ''o1'' (Fin 100) 0)
     = [ErrExecQty, ErrExecQty]"
    by (simp add: onOrderFillHandler_def ex_strategy_o1_def ex_strategy_def newFlatTrade_def
        ex_order_def seeTime_def After_def utc_def Let_def strategyError_def executeOrder_def
        ex_instr_def)
  with onOrderFillHandler_bad_fill [OF h, of ex_strategy_o1 "utc 7" ex_instr "''o1''"]
  show ?thesis by simp
qed

section \<open>The fill rule of limit orders, and events for unknown orders\<close>

text \<open>
  What \<open>fillOnTickLimit\<close> returns for an order of type Limit that is valid and active
  with a positive leaves quantity, on a tick that has a trade.
\<close>

lemma fillOnTickLimit_cases:
  assumes "OrderValid (Order' ord)" and "Order.Type (Order' ord) = LimitOrder"
    and "isActive ord" and "0 <s Order.Qty (Order' ord) - BrokerExecQty ord"
    and "TickHasTrade tick"
  shows "let lvsQty = Order.Qty (Order' ord) - BrokerExecQty ord;
             qty = (if LastSize tick <s lvsQty then LastSize tick else lvsQty);
             fillE = OrderFillEvent (genTimeRoundTrip b (Tick.Datetime tick))
                       (Order.Ticker (Order' ord)) (Id (Order' ord)) (BrokerPrice ord) qty
         in sint qty = min (sint lvsQty) (sint (LastSize tick)) \<and>
            (Side (Order' ord) = OrderBuy \<longrightarrow>
               fillOnTickLimit b ord tick =
                 ([], if flt_lt (LastPrice tick) (BrokerPrice ord)
                         \<or> (flt_eq (LastPrice tick) (BrokerPrice ord) \<and> \<not> strictLimitOrders b)
                      then Some fillE else None)) \<and>
            (Side (Order' ord) = OrderSell \<longrightarrow>
               fillOnTickLimit b ord tick =
                 ([], if flt_gt (LastPrice tick) (BrokerPrice ord)
                         \<or> (flt_eq (LastPrice tick) (BrokerPrice ord) \<and> \<not> strictLimitOrders b)
                      then Some fillE else None))"
proof -
  have v: "validateOrderForExecution ord LimitOrder = None"
    using assms
    by (auto simp add: validateOrderForExecution_def isActive_def word_sle_eq word_sless_alt)
  show ?thesis
    using assms(5) v
    by (simp add: fillOnTickLimit_def Let_def word_sless_alt min_def)
qed

text \<open>
  Claim C8, as amended. A confirmation, cancel, fill, replaced or rejected event that
  names an order id unknown to the worker makes \<open>addBrokerEvent\<close> panic: the run is
  aborted, nothing is sent on the error channel and the event is not appended to the
  buffer.
\<close>

theorem addBrokerEvent_unknown_order_panics:
  assumes "map_of (orders b) ordId = None"
  shows "addBrokerEvent b (OrderConfirmationEvent t tk ordId) = Inl PanicConfirmationNotExisting \<and>
         addBrokerEvent b (OrderCancelEvent t tk ordId) = Inl (PanicCancelNotFound ordId) \<and>
         addBrokerEvent b (OrderFillEvent t tk ordId price qty) = Inl (PanicFillNotFound ordId) \<and>
         addBrokerEvent b (OrderReplacedEvent t tk ordId price) = Inl (PanicReplaceNotFound ordId) \<and>
         addBrokerEvent b (OrderRejectedEvent t tk ordId r) = Inl PanicConfirmationNotExisting"
  using assms by (simp add: addBrokerEvent_def)

text \<open>A fill for \<open>o2\<close> at a worker that knows \<open>o1\<close> only.\<close>

theorem addBrokerEvent_unknown_order_panics_witness:
  "addBrokerEvent (ex_worker\<lparr>orders := [(''o1'', ex_confirmed)]\<rparr>)
      (OrderFillEvent (utc 9) ex_instr ''o2'' (Fin 100) 1) = Inl (PanicFillNotFound ''o2'')"
proof -
  have "map_of (orders (ex_worker\<lparr>orders := [(''o1'', ex_confirmed)]\<rparr>)) ''o2'' = None"
    by simp
  from addBrokerEvent_unknown_order_panics [OF this] show ?thesis by blast
qed

text \<open>
  Claim C8 as stated fails: at the example worker, which knows no order, a confirmation,
  a cancel and a fill for \<open>o1\<close> do not return a worker that goes on.
\<close>

theorem addBrokerEvent_unknown_order_counterexample:
  "addBrokerEvent ex_worker (OrderConfirmationEvent (utc 9) ex_instr ''o1'')
     = Inl PanicConfirmationNotExisting \<and>
   addBrokerEvent ex_worker (OrderCancelEvent (utc 9) ex_instr ''o1'')
     = Inl (PanicCancelNotFound ''o1'') \<and>
   addBrokerEvent ex_worker (OrderFillEvent (utc 9) ex_instr ''o1'' (Fin 100) 1)
     = Inl (PanicFillNotFound ''o1'')"
  by (simp add: addBrokerEvent_def ex_worker_def)

section \<open>The buffer of requests on a market-data arrival\<close>

lemma applyBrokerEvent_requestEvents:
  "applyBrokerEvent (b\<lparr>requestEvents := x\<rparr>) e =
     (case applyBrokerEvent b e of Inl p \<Rightarrow> Inl p | Inr b' \<Rightarrow> Inr (b'\<lparr>requestEvents := x\<rparr>))"
  by (cases e) (simp_all add: updOrder_def split: option.splits)

lemma addBrokerEvent_requestEvents:
  "addBrokerEvent (b\<lparr>requestEvents := x\<rparr>) e =
     (case addBrokerEvent b e of Inl p \<Rightarrow> Inl p | Inr b' \<Rightarrow> Inr (b'\<lparr>requestEvents := x\<rparr>))"
  by (simp add: addBrokerEvent_def applyBrokerEvent_requestEvents split: sum.splits)

lemma genTimeRoundTrip_requestEvents:
  "genTimeRoundTrip (b\<lparr>requestEvents := x\<rparr>) t = genTimeRoundTrip b t"
  by (simp add: genTimeRoundTrip_def)

lemma handleRequest_requestEvents:
  "handleRequest (b\<lparr>requestEvents := x\<rparr>) e =
     (case handleRequest b e of Inl p \<Rightarrow> Inl p | Inr b' \<Rightarrow> Inr (b'\<lparr>requestEvents := x\<rparr>))"
proof (cases e)
  case (NewOrderEvent t tk lo)
  have c: "b\<lparr>requestEvents := x, orders := os\<rparr> = b\<lparr>orders := os\<rparr>\<lparr>requestEvents := x\<rparr>" for os
    by (cases b) simp
  have "addBrokerEvent (b\<lparr>requestEvents := x, orders := os\<rparr>) ev =
     (case addBrokerEvent (b\<lparr>orders := os\<rparr>) ev of Inl p \<Rightarrow> Inl p | Inr b' \<Rightarrow> Inr (b'\<lparr>requestEvents := x\<rparr>))" for os ev
    unfolding c by (rule addBrokerEvent_requestEvents)
  with NewOrderEvent show ?thesis
    by (simp add: onNewOrder_def Let_def genTimeRoundTrip_requestEvents addBrokerEvent_requestEvents)
next
  case (OrderCancelRequestEvent t tk k)
  then show ?thesis
    by (simp add: onCancelRequest_def Let_def genTimeRoundTrip_requestEvents
        addBrokerEvent_requestEvents split: option.splits)
next
  case (OrderReplaceRequestEvent t tk k p)
  then show ?thesis
    by (simp add: onReplaceRequest_def Let_def genTimeRoundTrip_requestEvents
        addBrokerEvent_requestEvents split: option.splits)
qed simp_all

lemma handleRequests_requestEvents:
  "handleRequests (b\<lparr>requestEvents := x\<rparr>) es =
     (case handleRequests b es of Inl p \<Rightarrow> Inl p | Inr b' \<Rightarrow> Inr (b'\<lparr>requestEvents := x\<rparr>))"
proof (induction es arbitrary: b)
  case Nil
  show ?case by simp
next
  case (Cons e es)
  show ?case
    by (simp add: handleRequest_requestEvents Cons.IH split: sum.splits)
qed

lemma applyBrokerEvent_delay: "applyBrokerEvent b e = Inr b' \<Longrightarrow> delay b' = delay b"
  by (cases e) (auto simp add: updOrder_def split: option.splits if_splits)

lemma addBrokerEvent_delay: "addBrokerEvent b e = Inr b' \<Longrightarrow> delay b' = delay b"
  by (auto simp add: addBrokerEvent_def split: sum.splits dest: applyBrokerEvent_delay)

lemma handleRequest_delay: "handleRequest b e = Inr b' \<Longrightarrow> delay b' = delay b"
proof (cases e)
  case (NewOrderEvent t tk lo)
  assume "handleRequest b e = Inr b'"
  with NewOrderEvent show ?thesis
    by (auto simp add: onNewOrder_def Let_def split: if_splits dest!: addBrokerEvent_delay)
next
  case (OrderCancelRequestEvent t tk k)
  assume "handleRequest b e = Inr b'"
  with OrderCancelRequestEvent show ?thesis
    by (auto simp add: onCancelRequest_def Let_def split: if_splits option.splits
        dest!: addBrokerEvent_delay)
next
  case (OrderReplaceRequestEvent t tk k p)
  assume "handleRequest b e = Inr b'"
  with OrderReplaceRequestEvent show ?thesis
    by (auto simp add: onReplaceRequest_def Let_def split: if_splits option.splits
        dest!: addBrokerEvent_delay)
qed simp_all

lemma proceedLoop_filter:
  "proceedLoop T es b left =
     (case handleRequests b (filter (\<lambda>e. Before (genTimeSingleTrip b (getTime e)) T) es) of
        Inl p \<Rightarrow> Inl p
      | Inr b' \<Rightarrow>
          Inr (b', left @ filter (\<lambda>e. \<not> Before (genTimeSingleTrip b (getTime e)) T) es))"
proof (induction es arbitrary: b left)
  case Nil
  show ?case by simp
next
  case (Cons e es)
  show ?case
  proof (cases "Before (genTimeSingleTrip b (getTime e)) T")
    case False
    then show ?thesis by (simp add: Cons.IH split: sum.splits)
  next
    case True
    show ?thesis
    proof (cases "handleRequest b e")
      case (Inl p)
      with True show ?thesis by simp
    next
      case (Inr b1)
      then have "delay b1 = delay b" by (rule handleRequest_delay)
      then have g: "genTimeSingleTrip b1 = genTimeSingleTrip b"
        by (simp add: genTimeSingleTrip_def fun_eq_iff)
      from True Inr show ?thesis by (simp add: Cons.IH g split: sum.splits)
    qed
  qed
qed

lemma addBrokerEvent_request_returns:
  "map_of (orders b) k \<noteq> None \<Longrightarrow> \<exists>b'. addBrokerEvent b (OrderCancelEvent t tk k) = Inr b'"
  "map_of (orders b) k \<noteq> None \<Longrightarrow> \<exists>b'. addBrokerEvent b (OrderReplacedEvent t tk k p) = Inr b'"
  "\<exists>b'. addBrokerEvent b (OrderCancelRejectEvent t tk k r) = Inr b'"
  "\<exists>b'. addBrokerEvent b (OrderReplaceRejectEvent t tk k r) = Inr b'"
  by (auto simp add: addBrokerEvent_def)

lemma onNewOrder_returns: "\<exists>b'. onNewOrder b t tk lo = Inr b'"
  by (auto simp add: onNewOrder_def Let_def addBrokerEvent_def updOrder_def update_conv'
      split: option.splits)

lemma handleRequest_returns: "isRequest e \<Longrightarrow> \<exists>b'. handleRequest b e = Inr b'"
proof (cases e)
  case (NewOrderEvent t tk lo)
  from onNewOrder_returns [of b t tk lo] NewOrderEvent show ?thesis by auto
next
  case (OrderCancelRequestEvent t tk k)
  then show ?thesis
    using addBrokerEvent_request_returns [where b=b and k=k]
    by (auto simp add: onCancelRequest_def Let_def split: option.splits)
next
  case (OrderReplaceRequestEvent t tk k p)
  then show ?thesis
    using addBrokerEvent_request_returns [where b=b and k=k]
    by (auto simp add: onReplaceRequest_def Let_def split: option.splits)
qed simp_all

lemma handleRequests_returns:
  "\<forall>e\<in>set es. isRequest e \<Longrightarrow> \<exists>b'. handleRequests b es = Inr b'"
proof (induction es arbitrary: b)
  case Nil
  show ?case by simp
next
  case (Cons e es)
  from Cons.prems obtain b1 where "handleRequest b e = Inr b1"
    using handleRequest_returns [of e b] by auto
  with Cons show ?case by simp
qed


lemma sint_single_trip:
  fixes d :: int64
  assumes "- (2 ^ 63) \<le> sint d * 1000000" and "sint d * 1000000 < 2 ^ 63"
  shows "sint (d * 1000000) = sint d * 1000000"
proof -
  have c: "sint (1000000::int64) = 1000000" by simp
  have "sint (d * 1000000) = signed_take_bit 63 (sint d * sint (1000000::int64))"
    by (simp add: sint_word_mult)
  also have "\<dots> = signed_take_bit 63 (sint d * 1000000)" by (simp only: c)
  also have "\<dots> = sint d * 1000000"
    using assms by (intro signed_take_bit_int_eq_self) simp_all
  finally show ?thesis .
qed

text \<open>
  Claim C2, as amended. On a market-data arrival at time \<open>T\<close>, \<open>proceedStoredRequests\<close>
  handles exactly the buffered requests whose visibility time (submission time plus
  \<open>time.Duration(delay) * time.Millisecond\<close>) is strictly before \<open>T\<close>, and every request
  whose visibility time is \<open>T\<close> or later remains buffered. The requests are handled in an
  order of the buffer that is non-decreasing in the whole second of their submission
  time. When the buffer holds requests only, the function returns (no panic). The
  product is computed on \<open>int64\<close>; it is \<open>delay\<close> milliseconds whenever that many
  nanoseconds are representable.
\<close>

theorem proceedStoredRequests_rule:
  "\<exists>reqs.
      mset reqs = mset (requestEvents b) \<and>
      sorted (map (\<lambda>e. Unix (getTime e)) reqs) \<and>
      (let visible = (\<lambda>e. nsec (getTime e) + sint (delay b * Millisecond) < nsec T)
       in proceedStoredRequests b T =
            (case handleRequests b (filter visible reqs) of
               Inl p \<Rightarrow> Inl p
             | Inr b' \<Rightarrow> Inr (b'\<lparr>requestEvents := filter (\<lambda>e. \<not> visible e) reqs\<rparr>))) \<and>
      ((\<forall>e\<in>set (requestEvents b). isRequest e) \<longrightarrow> (\<exists>b'. proceedStoredRequests b T = Inr b')) \<and>
      (- (2 ^ 63) \<le> sint (delay b) * 1000000 \<and> sint (delay b) * 1000000 < 2 ^ 63 \<longrightarrow>
         sint (delay b * Millisecond) = sint (delay b) * 1000000)"
proof -
  let ?reqs = "sortEvents (requestEvents b)"
  let ?vis = "\<lambda>e. nsec (getTime e) + sint (delay b * Millisecond) < nsec T"
  let ?b0 = "b\<lparr>requestEvents := ?reqs\<rparr>"
  have vis: "Before (genTimeSingleTrip ?b0 (getTime e)) T = ?vis e" for e
    by (simp add: Before_def genTimeSingleTrip_def Add_def)
  have main: "proceedStoredRequests b T =
        (case handleRequests b (filter ?vis ?reqs) of
           Inl p \<Rightarrow> Inl p
         | Inr b' \<Rightarrow> Inr (b'\<lparr>requestEvents := filter (\<lambda>e. \<not> ?vis e) ?reqs\<rparr>))"
  proof (cases "requestEvents b = []")
    case True
    then show ?thesis by (simp add: proceedStoredRequests_def sortEvents_def)
  next
    case False
    then show ?thesis
      by (simp add: proceedStoredRequests_def Let_def proceedLoop_filter vis
          handleRequests_requestEvents split: sum.splits)
  qed
  have ret: "\<exists>b'. proceedStoredRequests b T = Inr b'" if "\<forall>e\<in>set (requestEvents b). isRequest e"
  proof -
    have "\<forall>e\<in>set (filter ?vis ?reqs). isRequest e"
      using that by (simp add: sortEvents_def)
    from handleRequests_returns [OF this, of b]
    obtain b1 where "handleRequests b (filter ?vis ?reqs) = Inr b1" by blast
    then show ?thesis by (simp add: main)
  qed
  have rng: "- (2 ^ 63) \<le> sint (delay b) * 1000000 \<and> sint (delay b) * 1000000 < 2 ^ 63 \<longrightarrow>
         sint (delay b * Millisecond) = sint (delay b) * 1000000"
    using sint_single_trip [of "delay b"] by (simp add: Millisecond_def)
  have so: "sorted (map (\<lambda>e. Unix (getTime e)) ?reqs)"
    by (simp add: sortEvents_def)
  have ms: "mset ?reqs = mset (requestEvents b)" by (simp add: sortEvents_def)
  show ?thesis
    apply (rule exI [of _ ?reqs])
    unfolding Let_def using main ret rng so ms by blast
qed

text \<open>
  The three example requests at a worker with a delay of 100 ms, on an arrival 500 ms
  after the first: the new order and the first cancel are handled, the cancel sent
  400 ms after the order (visible at 500 ms) remains buffered.
\<close>

theorem proceedStoredRequests_rule_witness:
  "(\<exists>reqs.
      mset reqs = mset ex_requests \<and>
      sorted (map (\<lambda>e. Unix (getTime e)) reqs) \<and>
      proceedStoredRequests (ex_worker\<lparr>requestEvents := ex_requests\<rparr>) (utc 1705329000500000000) =
        (case handleRequests (ex_worker\<lparr>requestEvents := ex_requests\<rparr>)
                (filter (\<lambda>e. nsec (getTime e) + 100000000 < 1705329000500000000) reqs) of
           Inl p \<Rightarrow> Inl p
         | Inr b' \<Rightarrow>
             Inr (b'\<lparr>requestEvents :=
                      filter (\<lambda>e. \<not> nsec (getTime e) + 100000000 < 1705329000500000000) reqs\<rparr>)))
   \<and> (\<exists>b'. proceedStoredRequests (ex_worker\<lparr>requestEvents := ex_requests\<rparr>)
              (utc 1705329000500000000) = Inr b'
         \<and> requestEvents b' = [OrderCancelRequestEvent (utc 1705329000400000000) ex_instr ''o1'']
         \<and> generatedEvents b' =
             [OrderConfirmationEvent (utc 1705329000200000000) ex_instr ''o1'',
              OrderCancelRejectEvent (utc 1705329000200020000) ex_instr ''zz'' ReasonNotFound])"
proof -
  let ?w = "ex_worker\<lparr>requestEvents := ex_requests\<rparr>"
  have d: "sint (delay ?w * Millisecond) = 100000000"
    by (simp add: ex_worker_def Millisecond_def)
  have r: "requestEvents ?w = ex_requests" by simp
  have n: "nsec (utc 1705329000500000000) = 1705329000500000000" by (simp add: utc_def)
  have ev: "\<exists>b'. proceedStoredRequests ?w (utc 1705329000500000000) = Inr b'
         \<and> requestEvents b' = [OrderCancelRequestEvent (utc 1705329000400000000) ex_instr ''o1'']
         \<and> generatedEvents b' =
             [OrderConfirmationEvent (utc 1705329000200000000) ex_instr ''o1'',
              OrderCancelRejectEvent (utc 1705329000200020000) ex_instr ''zz'' ReasonNotFound]"
    by (simp add: proceedStoredRequests_def sortEvents_def ex_requests_def utc_def Unix_def
        ex_worker_def onCancelRequest_def onNewOrder_def Before_def genTimeSingleTrip_def
        ex_order_def Let_def addBrokerEvent_def genTimeRoundTrip_def Add_def Millisecond_def
        updOrder_def)
  from proceedStoredRequests_rule [of ?w "utc 1705329000500000000"]
  show ?thesis unfolding Let_def d r n using ev by blast
qed

text \<open>
  Claim C2 as stated fails at a request whose visibility time is exactly \<open>T\<close>: with a
  delay of 100 ms, a cancel request submitted 100 ms before the arrival is not handled
  on that arrival and remains buffered.
\<close>

theorem proceedStoredRequests_boundary_counterexample:
  "nsec (genTimeSingleTrip ex_worker (utc 1705329000000000000)) \<le> nsec (utc 1705329000100000000) \<and>
   proceedStoredRequests
     (ex_worker\<lparr>requestEvents :=
        [OrderCancelRequestEvent (utc 1705329000000000000) ex_instr ''o1'']\<rparr>)
     (utc 1705329000100000000)
   = Inr (ex_worker\<lparr>requestEvents :=
        [OrderCancelRequestEvent (utc 1705329000000000000) ex_instr ''o1'']\<rparr>)"
  by (simp add: proceedStoredRequests_def sortEvents_def genTimeSingleTrip_def Add_def
      Millisecond_def Before_def ex_worker_def utc_def Let_def)

section \<open>The release of generated events\<close>

text \<open>The definitions unfolded to run the worker on the example values.\<close>

lemmas ex_eval =
  ex_worker_o1_def ex_worker_def ex_confirmed_def ex_order_def ex_instr_def ex_tick_event_def
  ex_tick_def utc_def UTC_def notify.simps addRequestEvent_def onTick_def Before_def After_def
  proceedStoredRequests_def sortEvents_def Unix_def genTimeSingleTrip_def genTimeRoundTrip_def
  Add_def Millisecond_def onCancelRequest_def onNewOrder_def onReplaceRequest_def Let_def
  addBrokerEvent_def updOrder_def findExecutions_def matchOrders_def orderKeys_def tickStep_def
  isActive_def cancelByTif_def isExpired_def getExpirationTime_def AddDays_def DateOnDayOf_def
  localSec_def localNs_def lookup_def fromCivil_def alpha_def omega_def dayNs_def
  findExecutionsOnTick_def validateOrderForExecution_def convertToList_def fillOnTickLimit_def
  flt_gt_def word_sle_eq word_sless_alt

text \<open>
  Claim C7, evaluated on the code. A worker with a delay of 100 ms receives a cancel
  request stamped 20 microseconds after a new-order request (the runtime stamps cancel
  requests 20 microseconds after its most recent time and market orders at that time),
  the cancel request first, then a tick 500 ms later. Both responses are released on the
  tick, the cancel-reject stamped \<open>.200020\<close> before the confirmation stamped \<open>.200000\<close>:
  the buffer is sorted on whole seconds only, so the delivered sequence goes back in
  time within the second.
\<close>

theorem findExecutions_release_within_second:
  "notifyAll ex_worker
     [OrderCancelRequestEvent (utc 1705329000000020000) ex_instr ''zz'',
      NewOrderEvent (utc 1705329000000000000) ex_instr ex_order,
      ex_tick_event 1705329000500000000]
    = Inr (ex_worker_o1
            \<lparr>lastTickTime := utc 1705329000500000000,
             events :=
               [OrderCancelRejectEvent (utc 1705329000200020000) ex_instr ''zz'' ReasonNotFound,
                OrderConfirmationEvent (utc 1705329000200000000) ex_instr ''o1'',
                ex_tick_event 1705329000500000000]\<rparr>)
    \<and> Before (utc 1705329000200000000) (utc 1705329000200020000)"
  by (simp add: ex_eval)

section \<open>Loading history twice\<close>

lemma candleKey_second:
  "candleKey c = candleKey c' \<Longrightarrow> candleSecond (Some c) = candleSecond (Some c')"
  by (simp add: candleKey_def timeKey_def candleSecond_def Unix_def)

lemma checkCandles_acc: "checkCandles xs L acc = acc @ checkCandles xs L []"
proof (induction xs arbitrary: L acc)
  case Nil
  show ?case by simp
next
  case (Cons v vs)
  show ?case
  proof (cases v)
    case None
    then show ?thesis using Cons.IH [of L acc] by simp
  next
    case (Some c)
    show ?thesis
      using Cons.IH [of L acc] Cons.IH [of "insert (candleKey c) L" "acc @ [Some c]"]
        Cons.IH [of "insert (candleKey c) L" "[Some c]"] Some
      by simp
  qed
qed

lemma cc_simps:
  "checkCandles [] L [] = []"
  "checkCandles (None # vs) L [] = checkCandles vs L []"
  "checkCandles (Some c # vs) L [] =
     (if \<not> CandleValid c \<or> candleKey c \<in> L then checkCandles vs L []
      else Some c # checkCandles vs (insert (candleKey c) L) [])"
  using checkCandles_acc [of vs "insert (candleKey c) L" "[Some c]"] by simp_all

declare checkCandles.simps [simp del]

lemma cc_elems:
  "v \<in> set (checkCandles xs L []) \<Longrightarrow>
     \<exists>c. v = Some c \<and> CandleValid c \<and> v \<in> set xs \<and> candleKey c \<notin> L"
proof (induction xs arbitrary: L)
  case Nil
  then show ?case by (simp add: cc_simps)
next
  case (Cons x xs)
  show ?case
  proof (cases x)
    case None
    with Cons show ?thesis by (auto simp add: cc_simps)
  next
    case (Some c)
    with Cons.prems Cons.IH [of L] Cons.IH [of "insert (candleKey c) L"]
    show ?thesis by (auto simp add: cc_simps split: if_splits)
  qed
qed

lemma cc_distinct: "distinct (map (\<lambda>v. candleKey (the v)) (checkCandles xs L []))"
proof (induction xs arbitrary: L)
  case Nil
  show ?case by (simp add: cc_simps)
next
  case (Cons x xs)
  show ?case
  proof (cases x)
    case None
    with Cons show ?thesis by (simp add: cc_simps)
  next
    case (Some c)
    have "candleKey c \<notin> (\<lambda>v. candleKey (the v)) ` set (checkCandles xs (insert (candleKey c) L) [])"
    proof
      assume "candleKey c \<in> (\<lambda>v. candleKey (the v)) ` set (checkCandles xs (insert (candleKey c) L) [])"
      then obtain v where v: "v \<in> set (checkCandles xs (insert (candleKey c) L) [])"
        and e: "candleKey c = candleKey (the v)" by blast
      from cc_elems [OF v] obtain c' where "v = Some c'"
        "candleKey c' \<notin> insert (candleKey c) L" by blast
      with e show False by simp
    qed
    with Some Cons.IH show ?thesis by (simp add: cc_simps)
  qed
qed

lemma cc_complete:
  "Some c \<in> set xs \<Longrightarrow> CandleValid c \<Longrightarrow> candleKey c \<notin> L \<Longrightarrow>
     \<exists>c'. Some c' \<in> set (checkCandles xs L []) \<and> candleKey c' = candleKey c"
proof (induction xs arbitrary: L)
  case Nil
  then show ?case by simp
next
  case (Cons x xs)
  show ?case
  proof (cases x)
    case None
    with Cons show ?thesis by (auto simp add: cc_simps)
  next
    case (Some d)
    show ?thesis
    proof (cases "\<not> CandleValid d \<or> candleKey d \<in> L")
      case True
      with Some Cons.prems have "Some c \<in> set xs" by auto
      from Cons.IH [OF this Cons.prems(2,3)] True Some show ?thesis by (simp add: cc_simps)
    next
      case False
      show ?thesis
      proof (cases "candleKey d = candleKey c")
        case True
        with False Some show ?thesis by (auto simp add: cc_simps)
      next
        case neq: False
        with Some Cons.prems have in_xs: "Some c \<in> set xs" by auto
        from neq Cons.prems(3) have "candleKey c \<notin> insert (candleKey d) L" by auto
        from Cons.IH [OF in_xs Cons.prems(2) this] False Some show ?thesis
          by (auto simp add: cc_simps)
      qed
    qed
  qed
qed

lemma cc_prefix:
  "(\<forall>v\<in>set W. \<exists>c. v = Some c \<and> CandleValid c \<and> candleKey c \<notin> L) \<Longrightarrow>
   distinct (map (\<lambda>v. candleKey (the v)) W) \<Longrightarrow>
   checkCandles (W @ H) L [] =
     W @ checkCandles H (L \<union> (\<lambda>v. candleKey (the v)) ` set W) []"
proof (induction W arbitrary: L)
  case Nil
  show ?case by simp
next
  case (Cons w W)
  from Cons.prems(1) obtain c where c: "w = Some c" "CandleValid c" "candleKey c \<notin> L"
    by auto
  have "\<forall>v\<in>set W. \<exists>c'. v = Some c' \<and> CandleValid c' \<and> candleKey c' \<notin> insert (candleKey c) L"
    using Cons.prems c by force
  moreover have "distinct (map (\<lambda>v. candleKey (the v)) W)" using Cons.prems(2) by simp
  ultimately have "checkCandles (W @ H) (insert (candleKey c) L) [] =
     W @ checkCandles H (insert (candleKey c) L \<union> (\<lambda>v. candleKey (the v)) ` set W) []"
    by (rule Cons.IH)
  with c show ?case by (simp add: cc_simps)
qed

lemma sort_key_append_above:
  assumes "sorted (map f ys)" and "\<forall>x\<in>set xs. \<forall>y\<in>set ys. f x < f y"
  shows "sort_key f (ys @ xs) = sort_key f xs @ ys"
proof (rule properties_for_sort_key)
  show "mset (sort_key f xs @ ys) = mset (ys @ xs)" by simp
  show "sorted (map f (sort_key f xs @ ys))"
    using assms by (auto simp add: sorted_append less_imp_le)
  fix k assume "k \<in> set (sort_key f xs @ ys)"
  then consider "k \<in> set xs" | "k \<in> set ys" by auto
  moreover have fl: "filter (\<lambda>x. f k = f x) zs = filter (\<lambda>x. f x = f k) zs" for zs
    by (rule filter_cong) auto
  ultimately show "filter (\<lambda>x. f k = f x) (sort_key f xs @ ys) = filter (\<lambda>x. f k = f x) (ys @ xs)"
  proof cases
    case 1
    have "f k \<noteq> f y" if "y \<in> set ys" for y
      using assms(2) 1 that by (metis less_irrefl)
    then have "filter (\<lambda>x. f k = f x) ys = []"
      by (simp add: filter_empty_conv)
    then show ?thesis by (simp add: fl sort_key_stable)
  next
    case 2
    have "f k \<noteq> f x" if "x \<in> set xs" for x
      using assms(2) 2 that by (metis less_irrefl)
    then have "filter (\<lambda>x. f k = f x) xs = []"
      by (simp add: filter_empty_conv)
    then show ?thesis by (simp add: fl sort_key_stable)
  qed
qed

lemma lastPeriods_drop:
  "0 \<le> n \<Longrightarrow> lastPeriods n xs = Inr (drop (length xs - nat n) xs)"
  by (auto simp add: lastPeriods_def)


lemma updateLastCandleOpen_idem:
  assumes "updateLastCandleOpen b = Inr b1"
  shows "Candles b1 = Candles b \<and> nPeriods b1 = nPeriods b \<and> updateLastCandleOpen b1 = Inr b1"
proof (cases "Candles b = []")
  case True
  with assms show ?thesis by (auto simp add: updateLastCandleOpen_def)
next
  case False
  with assms obtain c where c: "last (Candles b) = Some c"
    by (auto simp add: updateLastCandleOpen_def split: option.splits)
  show ?thesis
  proof (cases "After (Candle.Datetime c) (lastCandleOpenTime b)")
    case True
    with assms False c
    have "b1 = b\<lparr>lastCandleOpen := Open c, lastCandleOpenTime := Candle.Datetime c\<rparr>"
      by (simp add: updateLastCandleOpen_def)
    with False c show ?thesis by (simp add: updateLastCandleOpen_def After_def)
  next
    case F: False
    with assms False c have "b1 = b" by (simp add: updateLastCandleOpen_def)
    with assms show ?thesis by simp
  qed
qed

lemma updateLastCandleOpen_total:
  assumes "\<forall>v\<in>set (Candles b). v \<noteq> None"
  shows "\<exists>b1. updateLastCandleOpen b = Inr b1"
proof (cases "Candles b = []")
  case True
  then show ?thesis by (simp add: updateLastCandleOpen_def)
next
  case False
  then have "last (Candles b) \<in> set (Candles b)" by simp
  with assms obtain c where "last (Candles b) = Some c" by auto
  with False show ?thesis by (simp add: updateLastCandleOpen_def)
qed

lemma candle_history_twice:
  assumes ds: "distinctSeconds (Candles b @ eCandles)" and n0: "0 \<le> nPeriods b"
  shows "\<exists>b1. onCandleHistoryHandler b eCandles = Inr b1 \<and>
              onCandleHistoryHandler b1 eCandles = Inr b1"
proof (cases "eCandles = []")
  case True
  then show ?thesis by (simp add: onCandleHistoryHandler_def)
next
  case ne: False
  let ?dt = "\<lambda>v. candleKey (the v)"
  define D1 where "D1 = checkCandles (Candles b @ eCandles) {} []"
  define S1 where "S1 = sort_key candleSecond D1"
  define k where "k = length S1 - nat (nPeriods b)"
  define A where "A = take k S1"
  define W1 where "W1 = drop k S1"
  have S1_split: "S1 = A @ W1" by (simp add: A_def W1_def)
  have set_S1: "set S1 = set D1" by (simp add: S1_def)
  have lp1: "lastPeriods (nPeriods b) S1 = Inr W1"
    using n0 by (simp add: lastPeriods_drop W1_def k_def)
  have W1_in_D1: "set W1 \<subseteq> set D1"
    using set_S1 by (auto simp add: W1_def dest: in_set_dropD)
  have D1_elems: "\<exists>c. v = Some c \<and> CandleValid c \<and> v \<in> set (Candles b @ eCandles)"
    if "v \<in> set D1" for v
    using cc_elems [of v "Candles b @ eCandles" "{}"] that by (auto simp add: D1_def)
  have W1_some: "\<forall>v\<in>set W1. v \<noteq> None"
    using W1_in_D1 D1_elems by blast
  from updateLastCandleOpen_total [of "b\<lparr>Candles := W1\<rparr>"] W1_some
  obtain b1 where b1: "updateLastCandleOpen (b\<lparr>Candles := W1\<rparr>) = Inr b1" by auto
  from updateLastCandleOpen_idem [OF b1]
  have cb1: "Candles b1 = W1" and nb1: "nPeriods b1 = nPeriods b"
    and ub1: "updateLastCandleOpen b1 = Inr b1" by simp_all
  have first: "onCandleHistoryHandler b eCandles = Inr b1"
    using ne lp1 b1 by (simp add: onCandleHistoryHandler_def Let_def D1_def S1_def)
  \<comment> \<open>the second delivery\<close>
  have dist_D1: "distinct (map ?dt D1)" unfolding D1_def by (rule cc_distinct)
  have "mset (map ?dt S1) = mset (map ?dt D1)" by (simp add: S1_def)
  then have dist_S1: "distinct (map ?dt S1)"
    using dist_D1 by (metis mset_eq_imp_distinct_iff)
  have dist_W1: "distinct (map ?dt W1)"
    using dist_S1 by (simp add: W1_def drop_map [symmetric])
  have W1_pre: "\<forall>v\<in>set W1. \<exists>c. v = Some c \<and> CandleValid c \<and> candleKey c \<notin> {}"
    using W1_in_D1 D1_elems by blast
  define E where "E = checkCandles eCandles (?dt ` set W1) []"
  have D2: "checkCandles (W1 @ eCandles) {} [] = W1 @ E"
    using cc_prefix [OF W1_pre dist_W1, of eCandles] by (simp add: E_def)
  have sorted_S1: "sorted (map candleSecond S1)" by (simp add: S1_def)
  have sorted_W1: "sorted (map candleSecond W1)"
    using sorted_S1 by (simp add: W1_def drop_map [symmetric] sorted_wrt_drop)
  have E_in_A: "\<exists>c'. Some c' \<in> set A \<and> candleKey c' = ?dt e \<and> CandleValid c'
                  \<and> Some c' \<in> set (Candles b @ eCandles)"
    if e: "e \<in> set E" for e
  proof -
    from cc_elems [of e eCandles "?dt ` set W1"] e
    obtain c where c: "e = Some c" "CandleValid c" "e \<in> set eCandles"
      "candleKey c \<notin> ?dt ` set W1" by (auto simp add: E_def)
    from c have "Some c \<in> set (Candles b @ eCandles)" by simp
    from cc_complete [OF this c(2), of "{}"]
    obtain c' where c': "Some c' \<in> set D1" "candleKey c' = candleKey c"
      by (auto simp add: D1_def)
    have "Some c' \<notin> set W1"
    proof
      assume "Some c' \<in> set W1"
      then have "?dt (Some c') \<in> ?dt ` set W1" by (rule imageI)
      with c' c(4) show False by simp
    qed
    with c'(1) set_S1 S1_split have "Some c' \<in> set A" by auto
    moreover from D1_elems [OF c'(1)] have "CandleValid c'" "Some c' \<in> set (Candles b @ eCandles)"
      by auto
    ultimately show ?thesis using c' c(1) by auto
  qed
  have below: "\<forall>e\<in>set E. \<forall>w\<in>set W1. candleSecond e < candleSecond w"
  proof (intro ballI)
    fix e w assume e: "e \<in> set E" and w: "w \<in> set W1"
    from E_in_A [OF e] obtain c' where c': "Some c' \<in> set A"
      "candleKey c' = ?dt e" "CandleValid c'" "Some c' \<in> set (Candles b @ eCandles)"
      by blast
    from cc_elems [of e eCandles "?dt ` set W1"] e
    obtain c where c: "e = Some c" "candleKey c \<notin> ?dt ` set W1"
      by (auto simp add: E_def)
    from w W1_in_D1 D1_elems obtain cw where cw: "w = Some cw" "CandleValid cw"
      "Some cw \<in> set (Candles b @ eCandles)" by blast
    have le: "candleSecond (Some c') \<le> candleSecond w"
      using sorted_S1 c'(1) w unfolding S1_split by (auto simp add: sorted_append)
    have "candleKey c' \<noteq> candleKey cw"
    proof
      assume "candleKey c' = candleKey cw"
      with c'(2) c(1) have "candleKey c = ?dt w" using cw(1) by simp
      with w have "candleKey c \<in> ?dt ` set W1" by (simp add: image_iff) blast
      with c(2) show False by simp
    qed
    with ds c'(3,4) cw(2,3)
    have "Unix (Candle.Datetime c') \<noteq> Unix (Candle.Datetime cw)"
      unfolding distinctSeconds_def by fastforce
    with le cw(1) have "candleSecond (Some c') < candleSecond w"
      by (simp add: candleSecond_def)
    moreover have "candleSecond e = candleSecond (Some c')"
      using c'(2) c(1) candleKey_second [of c' c] by simp
    ultimately show "candleSecond e < candleSecond w" by simp
  qed
  have S2: "sort_key candleSecond (W1 @ E) = sort_key candleSecond E @ W1"
    using sorted_W1 below by (rule sort_key_append_above)
  have len_W1: "length W1 \<le> nat (nPeriods b)" by (simp add: W1_def k_def)
  have len_W1_E: "length W1 = nat (nPeriods b)" if "E \<noteq> []"
  proof -
    from that obtain e where "e \<in> set E" by (cases E) auto
    from E_in_A [OF this] have "A \<noteq> []" by auto
    then have "0 < k" by (auto simp add: A_def)
    then show ?thesis by (simp add: W1_def k_def)
  qed
  have dropE: "drop (length (sort_key candleSecond E @ W1) - nat (nPeriods b))
                 (sort_key candleSecond E @ W1) = W1"
  proof (cases "E = []")
    case True
    with len_W1 show ?thesis by simp
  next
    case False
    from len_W1_E [OF this] show ?thesis by simp
  qed
  have lp2: "lastPeriods (nPeriods b) (sort_key candleSecond (W1 @ E)) = Inr W1"
  proof -
    have "lastPeriods (nPeriods b) (sort_key candleSecond E @ W1) =
            Inr (drop (length (sort_key candleSecond E @ W1) - nat (nPeriods b))
                   (sort_key candleSecond E @ W1))"
      using n0 by (rule lastPeriods_drop)
    then show ?thesis unfolding S2 dropE .
  qed
  have same: "b1\<lparr>Candles := W1\<rparr> = b1" using cb1 by simp
  have second: "onCandleHistoryHandler b1 eCandles = Inr b1"
    using ne lp2 ub1 by (simp add: onCandleHistoryHandler_def Let_def cb1 nb1 D2 same)
  from first second show ?thesis by blast
qed


lemma checkTicks_filter:
  "checkTicks xs acc =
     acc @ filter (\<lambda>v. case v of None \<Rightarrow> False | Some tick \<Rightarrow> TickValid tick) xs"
proof (induction xs arbitrary: acc)
  case Nil
  show ?case by simp
next
  case (Cons v vs)
  show ?case
  proof (cases v)
    case None
    with Cons show ?thesis by simp
  next
    case (Some tick)
    with Cons.IH [of acc] Cons.IH [of "acc @ [Some tick]"] show ?thesis by simp
  qed
qed

text \<open>
  Claim C9, as amended. With a window size that is not negative, and when any two valid
  candles among the window and the event whose time stamps are not \<open>==\<close> as \<open>time.Time\<close>
  values (they differ in the instant or in the location pointer) lie in different
  seconds, \<open>onCandleHistoryHandler\<close> returns, and delivering the same candles again
  leaves the runtime, hence the window, as the first delivery left it. A tick history
  is merged with the window with duplicates kept: the window becomes the last
  \<open>nPeriods\<close> of the valid ticks of the window followed by those of the event, sorted
  stably on the whole second.
\<close>

theorem history_load_twice:
  assumes "distinctSeconds (Candles b @ eCandles)" and "0 \<le> nPeriods b"
  shows "(\<exists>b1. onCandleHistoryHandler b eCandles = Inr b1 \<and>
               onCandleHistoryHandler b1 eCandles = Inr b1) \<and>
         (eTicks \<noteq> [] \<longrightarrow>
            onTickHistoryHandler b eTicks =
              (case lastPeriods (nPeriods b)
                      (sort_key tickSecond
                         (filter (\<lambda>v. case v of None \<Rightarrow> False | Some tick \<Rightarrow> TickValid tick)
                            (Ticks b @ eTicks))) of
                 Inl p \<Rightarrow> Inl p
               | Inr w \<Rightarrow> Inr (b\<lparr>Ticks := w\<rparr>)))"
  using candle_history_twice [OF assms]
  by (simp add: onTickHistoryHandler_def Let_def checkTicks_filter)

text \<open>
  A window of 2 periods and the example history: the first delivery leaves the candles
  of the seconds 2 and 3, and so does the second.
\<close>

theorem history_load_twice_witness:
  "\<exists>b1. onCandleHistoryHandler (ex_strategy\<lparr>nPeriods := 2\<rparr>) ex_history = Inr b1 \<and>
        onCandleHistoryHandler b1 ex_history = Inr b1 \<and>
        Candles b1 = [Some (ex_candle 2000000000 102), Some (ex_candle 3000000000 103)]"
proof -
  let ?b = "ex_strategy\<lparr>nPeriods := 2\<rparr>"
  have h1: "distinctSeconds (Candles ?b @ ex_history)"
    by (simp add: distinctSeconds_def ex_strategy_def ex_history_def ex_candle_def utc_def
        Unix_def candleKey_def timeKey_def)
  have h2: "0 \<le> nPeriods ?b" by simp
  have c: "onCandleHistoryHandler ?b ex_history = Inr b1 \<Longrightarrow>
        Candles b1 = [Some (ex_candle 2000000000 102), Some (ex_candle 3000000000 103)]" for b1
    by (auto simp add: onCandleHistoryHandler_def ex_strategy_def ex_history_def ex_candle_def
        utc_def Unix_def checkCandles.simps candleSecond_def lastPeriods_def Let_def
        candleKey_def timeKey_def
        updateLastCandleOpen_def After_def split: if_splits)
  from history_load_twice [OF h1 h2, of "[]"] c show ?thesis by blast
qed

text \<open>
  Claim C9 as stated fails for ticks: delivered to an empty window of 5 periods, a
  history of one tick leaves one tick, and delivered again it leaves two. It fails for
  candles too when two time stamps of one instant carry different location objects:
  with a window of 1 period, a history of two such candles leaves the second one, and
  delivered again it leaves the first one.
\<close>

theorem history_load_twice_counterexample:
  "onTickHistoryHandler ex_strategy [Some (ex_tick 1000000000 (Fin 100) 1)]
     = Inr (ex_strategy\<lparr>Ticks := [Some (ex_tick 1000000000 (Fin 100) 1)]\<rparr>) \<and>
   onTickHistoryHandler (ex_strategy\<lparr>Ticks := [Some (ex_tick 1000000000 (Fin 100) 1)]\<rparr>)
       [Some (ex_tick 1000000000 (Fin 100) 1)]
     = Inr (ex_strategy\<lparr>Ticks := [Some (ex_tick 1000000000 (Fin 100) 1),
                                   Some (ex_tick 1000000000 (Fin 100) 1)]\<rparr>) \<and>
   onCandleHistoryHandler (ex_strategy\<lparr>nPeriods := 1\<rparr>)
       [Some (ex_candle_at 7 101), Some (ex_candle_at 8 102)]
     = Inr (ex_strategy\<lparr>nPeriods := 1, Candles := [Some (ex_candle_at 8 102)],
                        lastCandleOpen := Fin 102,
                        lastCandleOpenTime := Candle.Datetime (ex_candle_at 8 102)\<rparr>) \<and>
   onCandleHistoryHandler
       (ex_strategy\<lparr>nPeriods := 1, Candles := [Some (ex_candle_at 8 102)],
                    lastCandleOpen := Fin 102,
                    lastCandleOpenTime := Candle.Datetime (ex_candle_at 8 102)\<rparr>)
       [Some (ex_candle_at 7 101), Some (ex_candle_at 8 102)]
     = Inr (ex_strategy\<lparr>nPeriods := 1, Candles := [Some (ex_candle_at 7 101)],
                        lastCandleOpen := Fin 102,
                        lastCandleOpenTime := Candle.Datetime (ex_candle_at 8 102)\<rparr>)"
  by (simp add: onTickHistoryHandler_def ex_strategy_def ex_tick_def Let_def lastPeriods_def
      tickSecond_def onCandleHistoryHandler_def ex_candle_at_def ex_candle_def FixedZone_def
      utc_def Unix_def checkCandles.simps candleSecond_def candleKey_def timeKey_def
      updateLastCandleOpen_def After_def)

section \<open>Expiry of day orders\<close>

lemma map_of_updOrder:
  "map_of (orders (updOrder k' f b)) k =
     (if k = k' then map_option f (map_of (orders b) k') else map_of (orders b) k)"
  by (cases "map_of (orders b) k'") (simp_all add: updOrder_def map_of_map_entry)

lemma updOrder_fields:
  "generatedEvents (updOrder k f b) = generatedEvents b"
  "events (updOrder k f b) = events b"
  "errChan (updOrder k f b) = errChan b"
  by (simp_all add: updOrder_def)

lemma applyBrokerEvent_frame:
  assumes "applyBrokerEvent b e = Inr b'"
  shows "(\<forall>k. eventOrdId e \<noteq> Some k \<longrightarrow> map_of (orders b') k = map_of (orders b) k) \<and>
         (\<forall>k ord'. map_of (orders b') k = Some ord' \<longrightarrow>
            (\<exists>ord. map_of (orders b) k = Some ord \<and> Order' ord' = Order' ord)) \<and>
         generatedEvents b' = generatedEvents b \<and> events b' = events b"
  using assms
  by (cases e)
    (auto simp add: map_of_updOrder updOrder_fields split: option.splits if_splits)

lemma addBrokerEvent_frame:
  assumes "addBrokerEvent b e = Inr b'"
  shows "(\<forall>k. eventOrdId e \<noteq> Some k \<longrightarrow> map_of (orders b') k = map_of (orders b) k) \<and>
         (\<forall>k ord'. map_of (orders b') k = Some ord' \<longrightarrow>
            (\<exists>ord. map_of (orders b) k = Some ord \<and> Order' ord' = Order' ord)) \<and>
         generatedEvents b' = generatedEvents b @ [e] \<and> events b' = events b"
proof -
  from assms obtain b1 where b1: "applyBrokerEvent b e = Inr b1"
    and b': "b' = b1\<lparr>generatedEvents := generatedEvents b1 @ [e]\<rparr>"
    by (auto simp add: addBrokerEvent_def split: sum.splits)
  from applyBrokerEvent_frame [OF b1] b' show ?thesis by simp
qed

lemma addBrokerEvents_frame:
  assumes "addBrokerEvents b es = Inr b'" and "\<forall>e\<in>set es. eventOrdId e \<noteq> Some k"
  shows "map_of (orders b') k = map_of (orders b) k \<and>
         generatedEvents b' = generatedEvents b @ es \<and> events b' = events b"
  using assms
proof (induction es arbitrary: b)
  case Nil
  then show ?case by simp
next
  case (Cons e es)
  from Cons.prems(1) obtain b1 where b1: "addBrokerEvent b e = Inr b1"
    and r: "addBrokerEvents b1 es = Inr b'"
    by (auto split: sum.splits)
  from Cons.prems(2) have "\<forall>e\<in>set es. eventOrdId e \<noteq> Some k" by simp
  from Cons.IH [OF r this] addBrokerEvent_frame [OF b1] Cons.prems(2)
  show ?case by simp
qed

lemma releaseLoop_filter:
  "releaseLoop T xs eventsToSend eventsLeft =
     (eventsToSend @ filter (\<lambda>e. \<not> After (getTime e) T) xs,
      eventsLeft @ filter (\<lambda>e. After (getTime e) T) xs)"
  by (induction xs arbitrary: eventsToSend eventsLeft) simp_all


lemma fillOnTickMarket_ids:
  "fillOnTickMarket b ord tick = (errs, Some e) \<Longrightarrow> eventOrdId e = Some (Id (Order' ord))"
  by (auto simp add: fillOnTickMarket_def Let_def split: if_splits)

lemma fillOnTickLimit_ids:
  "fillOnTickLimit b ord tick = (errs, Some e) \<Longrightarrow> eventOrdId e = Some (Id (Order' ord))"
  by (auto simp add: fillOnTickLimit_def Let_def split: if_splits option.splits OrderSide.splits)

lemma fillOnTickStop_ids:
  "fillOnTickStop b ord tick = (errs, Some e) \<Longrightarrow> eventOrdId e = Some (Id (Order' ord))"
  by (auto simp add: fillOnTickStop_def Let_def split: if_splits option.splits OrderSide.splits)

lemma fillOnTickMOO_ids:
  "fillOnTickMOO b ord tick = (errs, Some e) \<Longrightarrow> eventOrdId e = Some (Id (Order' ord))"
  by (auto simp add: fillOnTickMOO_def split: if_splits option.splits)

lemma fillOnTickMOC_ids:
  "fillOnTickMOC b ord tick = (errs, Some e) \<Longrightarrow> eventOrdId e = Some (Id (Order' ord))"
  by (auto simp add: fillOnTickMOC_def split: if_splits option.splits)

lemma fillOnTickLimitAuction_ids:
  "e \<in> set (snd (fillOnTickLimitAuction b ord tick)) \<Longrightarrow>
     eventOrdId e = Some (Id (Order' ord))"
  by (auto simp add: fillOnTickLimitAuction_def Let_def split: if_splits OrderSide.splits)

lemma fillOnTickLOO_ids:
  "e \<in> set (snd (fillOnTickLOO b ord tick)) \<Longrightarrow> eventOrdId e = Some (Id (Order' ord))"
  by (auto simp add: fillOnTickLOO_def split: if_splits option.splits
      dest: fillOnTickLimitAuction_ids)

lemma fillOnTickLOC_ids:
  "e \<in> set (snd (fillOnTickLOC b ord tick)) \<Longrightarrow> eventOrdId e = Some (Id (Order' ord))"
  by (auto simp add: fillOnTickLOC_def split: if_splits option.splits
      dest: fillOnTickLimitAuction_ids)

lemma convertToList_ids:
  assumes "\<And>errs e. r = (errs, Some e) \<Longrightarrow> eventOrdId e = Some k"
    and "e \<in> set (snd (convertToList r))"
  shows "eventOrdId e = Some k"
  using assms by (cases r) (auto simp add: convertToList_def split: option.splits)

lemma findExecutionsOnTick_ids:
  assumes "e \<in> set (snd (findExecutionsOnTick b ord tick))"
  shows "eventOrdId e = Some (Id (Order' ord))"
proof (cases "validateOrderForExecution ord (Order.Type (Order' ord))")
  case (Some err)
  with assms show ?thesis by (simp add: findExecutionsOnTick_def)
next
  case None
  show ?thesis
  proof (cases "Order.Type (Order' ord)")
    case MarketOrder
    with None assms show ?thesis
      by (auto simp add: findExecutionsOnTick_def intro: convertToList_ids fillOnTickMarket_ids)
  next
    case LimitOrder
    with None assms show ?thesis
      by (auto simp add: findExecutionsOnTick_def intro: convertToList_ids fillOnTickLimit_ids)
  next
    case StopOrder
    with None assms show ?thesis
      by (auto simp add: findExecutionsOnTick_def intro: convertToList_ids fillOnTickStop_ids)
  next
    case LimitOnClose
    with None assms show ?thesis
      by (auto simp add: findExecutionsOnTick_def dest: fillOnTickLOC_ids)
  next
    case LimitOnOpen
    with None assms show ?thesis
      by (auto simp add: findExecutionsOnTick_def dest: fillOnTickLOO_ids)
  next
    case MarketOnOpen
    with None assms show ?thesis
      by (auto simp add: findExecutionsOnTick_def intro: convertToList_ids fillOnTickMOO_ids)
  next
    case MarketOnClose
    with None assms show ?thesis
      by (auto simp add: findExecutionsOnTick_def intro: convertToList_ids fillOnTickMOC_ids)
  next
    case (OtherType x)
    with None assms show ?thesis by (simp add: findExecutionsOnTick_def)
  qed
qed

lemma fillEventOrNil_ids:
  "fillEventOrNil t tk ord p = Some e \<Longrightarrow> eventOrdId e = Some (Id (Order' ord))"
  by (auto simp add: fillEventOrNil_def split: if_splits)

lemma fillOrCancel_ids:
  "fillOrCancel t tk ord p = Some e \<Longrightarrow> eventOrdId e = Some (Id (Order' ord))"
  by (auto simp add: fillOrCancel_def split: if_splits)

lemma findExecutionsOnCandleClose_ids:
  assumes "findExecutionsOnCandleClose b ord t tk c tf = Inr (Some e)"
  shows "eventOrdId e = Some (Id (Order' ord))"
  using assms
  by (cases "Order.Type (Order' ord)"; cases "Side (Order' ord)")
    (auto simp add: findExecutionsOnCandleClose_def fillOnCandleCloseLimit_def
      fillOnCandleCloseStop_def fillOnCandleCloseLOC_def fillOnCandleCloseMOC_def Let_def
      split: if_splits dest: fillEventOrNil_ids fillOrCancel_ids)

lemma findExecutionsOnCandleOpen_ids:
  assumes "findExecutionsOnCandleOpen b ord t tk candleTime price tf = Inr (Some e)"
  shows "eventOrdId e = Some (Id (Order' ord))"
  using assms
  by (cases "Order.Type (Order' ord)"; cases "Side (Order' ord)")
    (auto simp add: findExecutionsOnCandleOpen_def fillOnCandleOpenLimit_def
      fillOnCandleOpenLOO_def fillOnCandleOpenStop_def fillOnCandleOpenMOO_def
      fillOnCandleOpenMarket_def fillAtOpen_def Let_def split: if_splits)


lemma stepFrame_refl: "stepFrame k s s"
  by (auto simp add: stepFrame_def)

lemma stepFrame_errChan:
  "stepFrame k (b, g) (b\<lparr>errChan := x\<rparr>, g @ ys) = (\<forall>e\<in>set ys. eventOrdId e = Some k)"
  by (auto simp add: stepFrame_def)

lemma stepFrame_appendOpt:
  "(\<And>e. r = Some e \<Longrightarrow> eventOrdId e = Some k) \<Longrightarrow> stepFrame k (b, g) (b, appendOpt g r)"
  by (cases r) (auto simp add: stepFrame_def appendOpt_def)

lemma cancelByTif_cases:
  assumes "cancelByTif b ord t = Inr (b', c)"
  shows "(\<not> c \<and> b' = b) \<or>
         (c \<and> (\<exists>x. getExpirationTime ord = Inr x \<and> After t x \<and>
                 addBrokerEvent b (OrderCancelEvent x (Order.Ticker (Order' ord))
                                     (Id (Order' ord))) = Inr b'))"
  using assms
  by (auto simp add: cancelByTif_def isExpired_def split: sum.splits bool.splits if_splits)

lemma cancel_stepFrame:
  assumes "addBrokerEvent b (OrderCancelEvent x tk k) = Inr b'"
  shows "stepFrame k (b, g) (b', g)"
  using addBrokerEvent_frame [OF assms] by (auto simp add: stepFrame_def)

lemma cancelByTif_stepFrame:
  assumes "cancelByTif b ord t = Inr (b', c)" and "Id (Order' ord) = k"
  shows "stepFrame k (b, g) (b', g)"
  using cancelByTif_cases [OF assms(1)] assms(2)
  by (auto simp add: stepFrame_refl intro: cancel_stepFrame)

lemma stepFrame_trans_ys:
  assumes "stepFrame k (b, g) (b1, g)" and "\<forall>e\<in>set ys. eventOrdId e = Some k"
  shows "stepFrame k (b, g) (b1\<lparr>errChan := x\<rparr>, g @ ys)"
  using assms by (auto simp add: stepFrame_def)

lemma stepFrame_trans_opt:
  assumes "stepFrame k (b, g) (b1, g)" and "\<And>e. r = Some e \<Longrightarrow> eventOrdId e = Some k"
  shows "stepFrame k (b, g) (b1, appendOpt g r)"
  using assms by (cases r) (auto simp add: stepFrame_def appendOpt_def)

lemma tickStep_frame:
  assumes "tickStep tk tick k s = Inr s'"
    and "\<forall>k ord. map_of (orders (fst s)) k = Some ord \<longrightarrow> Id (Order' ord) = k"
  shows "stepFrame k s s'"
proof -
  obtain b g where s: "s = (b, g)" by (cases s)
  show ?thesis
  proof (cases "map_of (orders b) k")
    case None
    with assms s show ?thesis by (simp add: tickStep_def stepFrame_refl)
  next
    case (Some ord)
    with assms(2) s have id: "Id (Order' ord) = k" by simp
    show ?thesis
    proof (cases "isActive ord \<and> Symbol (Order.Ticker (Order' ord)) = Symbol tk
                   \<and> Before (StateUpdTime ord) (Tick.Datetime tick)")
      case False
      with assms Some s show ?thesis
        by (auto simp add: tickStep_def stepFrame_refl split: if_splits)
    next
      case act: True
      with assms(1) Some s obtain b1 c where
        c: "cancelByTif b ord (Tick.Datetime tick) = Inr (b1, c)"
        by (auto simp add: tickStep_def split: sum.splits)
      note f = cancelByTif_stepFrame [OF c id, of g]
      show ?thesis
      proof (cases c)
        case True
        with assms(1) Some s act c f show ?thesis
          by (simp add: tickStep_def)
      next
        case False
        obtain errs es where fe: "findExecutionsOnTick b1 ord tick = (errs, es)"
          by (cases "findExecutionsOnTick b1 ord tick")
        then have "\<forall>e\<in>set es. eventOrdId e = Some k"
          using findExecutionsOnTick_ids [of _ b1 ord tick] id by auto
        from stepFrame_trans_ys [OF f this]
        show ?thesis
          using assms(1) Some s act c False fe by (auto simp add: tickStep_def)
      qed
    qed
  qed
qed

lemma tickStep_skip:
  "map_of (orders b) k = Some ord \<Longrightarrow> \<not> isActive ord \<Longrightarrow> tickStep tk tick k (b, g) = Inr (b, g)"
  by (simp add: tickStep_def)

lemma candleCloseStep_frame:
  assumes "candleCloseStep t tk c tf k s = Inr s'"
    and "\<forall>k ord. map_of (orders (fst s)) k = Some ord \<longrightarrow> Id (Order' ord) = k"
  shows "stepFrame k s s'"
proof -
  obtain b g where s: "s = (b, g)" by (cases s)
  show ?thesis
  proof (cases "map_of (orders b) k")
    case None
    with assms s show ?thesis by (simp add: candleCloseStep_def stepFrame_refl)
  next
    case (Some ord)
    with assms(2) s have id: "Id (Order' ord) = k" by simp
    show ?thesis
    proof (cases "Symbol (Order.Ticker (Order' ord)) = Symbol (Candle.Ticker c) \<and> isActive ord
                   \<and> Before (StateUpdTime ord) t")
      case False
      with assms Some s show ?thesis
        by (auto simp add: candleCloseStep_def stepFrame_refl split: if_splits)
    next
      case act: True
      with assms(1) Some s obtain b1 cn where
        c: "cancelByTif b ord (Candle.Datetime c) = Inr (b1, cn)"
        by (auto simp add: candleCloseStep_def split: sum.splits)
      note f = cancelByTif_stepFrame [OF c id, of g]
      show ?thesis
      proof (cases cn)
        case True
        with assms(1) Some s act c f show ?thesis
          by (simp add: candleCloseStep_def)
      next
        case False
        with assms(1) Some s act c
        obtain r where r: "findExecutionsOnCandleClose b1 ord t tk c tf = Inr r"
          and s': "s' = (b1, appendOpt g r)"
          by (auto simp add: candleCloseStep_def split: sum.splits)
        have "\<And>e. r = Some e \<Longrightarrow> eventOrdId e = Some k"
          using findExecutionsOnCandleClose_ids [of b1 ord t tk c tf] r id by simp
        from stepFrame_trans_opt [OF f this] s s' show ?thesis by simp
      qed
    qed
  qed
qed

lemma candleCloseStep_skip:
  "map_of (orders b) k = Some ord \<Longrightarrow> \<not> isActive ord \<Longrightarrow>
     candleCloseStep t tk c tf k (b, g) = Inr (b, g)"
  by (simp add: candleCloseStep_def)

lemma candleOpenStep_frame:
  assumes "candleOpenStep t tk candleTime price tf k s = Inr s'"
    and "\<forall>k ord. map_of (orders (fst s)) k = Some ord \<longrightarrow> Id (Order' ord) = k"
  shows "stepFrame k s s'"
proof -
  obtain b g where s: "s = (b, g)" by (cases s)
  show ?thesis
  proof (cases "map_of (orders b) k")
    case None
    with assms s show ?thesis by (simp add: candleOpenStep_def stepFrame_refl)
  next
    case (Some ord)
    with assms(2) s have id: "Id (Order' ord) = k" by simp
    show ?thesis
    proof (cases "InstrAddr (Order.Ticker (Order' ord)) = InstrAddr tk \<and> isActive ord")
      case False
      with assms Some s show ?thesis
        by (auto simp add: candleOpenStep_def stepFrame_refl split: if_splits)
    next
      case act: True
      show ?thesis
      proof (cases "Before (StateUpdTime ord) candleTime")
        case True
        with assms(1) Some s act obtain b1 cn where
          c: "cancelByTif b ord candleTime = Inr (b1, cn)"
          by (auto simp add: candleOpenStep_def split: sum.splits)
        note f = cancelByTif_stepFrame [OF c id, of g]
        show ?thesis
        proof (cases cn)
          case cnT: True
          with assms(1) Some s act True c f show ?thesis
            by (simp add: candleOpenStep_def)
        next
          case False
          with assms(1) Some s act True c
          obtain r where r: "findExecutionsOnCandleOpen b1 ord t tk candleTime price tf = Inr r"
            and s': "s' = (b1, appendOpt g r)"
            by (auto simp add: candleOpenStep_def split: sum.splits)
          have "\<And>e. r = Some e \<Longrightarrow> eventOrdId e = Some k"
            using findExecutionsOnCandleOpen_ids [of b1 ord t tk candleTime price tf] r id
            by simp
          from stepFrame_trans_opt [OF f this] s s' show ?thesis by simp
        qed
      next
        case nb: False
        show ?thesis
        proof (cases "(Order.Type (Order' ord) = MarketOrder \<or> Order.Type (Order' ord) = StopOrder)
                        \<and> \<not> After (StateUpdTime ord) t")
          case False
          with assms(1) Some s act nb show ?thesis
            by (auto simp add: candleOpenStep_def stepFrame_refl)
        next
          case True
          with assms(1) Some s act nb
          obtain r where r: "findExecutionsOnCandleOpen b ord t tk candleTime price tf = Inr r"
            and s': "s' = (b, appendOpt g r)"
            by (auto simp add: candleOpenStep_def split: sum.splits)
          have "\<And>e. r = Some e \<Longrightarrow> eventOrdId e = Some k"
            using findExecutionsOnCandleOpen_ids [of b ord t tk candleTime price tf] r id
            by simp
          from stepFrame_appendOpt [OF this] s s' show ?thesis by simp
        qed
      qed
    qed
  qed
qed

lemma candleOpenStep_skip:
  "map_of (orders b) k = Some ord \<Longrightarrow> \<not> isActive ord \<Longrightarrow>
     candleOpenStep t tk candleTime price tf k (b, g) = Inr (b, g)"
  by (simp add: candleOpenStep_def)

lemma stepFrame_keyed:
  assumes "stepFrame k' s s'"
    and "\<forall>k ord. map_of (orders (fst s)) k = Some ord \<longrightarrow> Id (Order' ord) = k"
  shows "\<forall>k ord. map_of (orders (fst s')) k = Some ord \<longrightarrow> Id (Order' ord) = k"
proof (intro allI impI)
  fix k ord assume m: "map_of (orders (fst s')) k = Some ord"
  show "Id (Order' ord) = k"
  proof (cases "k = k'")
    case True
    with assms(1) m obtain ord0 where "map_of (orders (fst s)) k' = Some ord0"
      "Order' ord = Order' ord0" unfolding stepFrame_def by blast
    with assms(2) True show ?thesis by simp
  next
    case False
    with assms(1) m have "map_of (orders (fst s)) k = Some ord"
      unfolding stepFrame_def by simp
    with assms(2) show ?thesis by simp
  qed
qed

lemma orderLoop_after:
  assumes frame: "\<And>k' s s'. step k' s = Inr s' \<Longrightarrow>
             \<forall>k ord. map_of (orders (fst s)) k = Some ord \<longrightarrow> Id (Order' ord) = k \<Longrightarrow>
             stepFrame k' s s'"
    and skip: "\<And>b g ord. map_of (orders b) k = Some ord \<Longrightarrow> \<not> isActive ord \<Longrightarrow>
             step k (b, g) = Inr (b, g)"
    and inactive: "\<not> isActive oc"
    and run: "orderLoop step ks s = Inr s'"
    and keyed: "\<forall>k ord. map_of (orders (fst s)) k = Some ord \<longrightarrow> Id (Order' ord) = k"
    and at_k: "map_of (orders (fst s)) k = Some oc"
    and ev: "ev \<in> set (generatedEvents (fst s))"
    and gen: "\<forall>e\<in>set (snd s). eventOrdId e \<noteq> Some k"
  shows "map_of (orders (fst s')) k = Some oc \<and> ev \<in> set (generatedEvents (fst s')) \<and>
         (\<forall>e\<in>set (snd s'). eventOrdId e \<noteq> Some k) \<and> events (fst s') = events (fst s)"
  using run keyed at_k ev gen
proof (induction ks arbitrary: s)
  case Nil
  then show ?case by simp
next
  case (Cons k' ks)
  from Cons.prems(1) obtain s1 where s1: "step k' s = Inr s1"
    and rest: "orderLoop step ks s1 = Inr s'" by (auto split: sum.splits)
  show ?case
  proof (cases "k' = k")
    case True
    from skip [OF _ inactive, of "fst s" "snd s"] Cons.prems(3) have "step k s = Inr s" by simp
    with s1 True have "s1 = s" by simp
    with Cons.IH [OF rest] Cons.prems show ?thesis by simp
  next
    case False
    note f = frame [OF s1 Cons.prems(2)]
    from stepFrame_keyed [OF f Cons.prems(2)]
    have k1: "\<forall>k ord. map_of (orders (fst s1)) k = Some ord \<longrightarrow> Id (Order' ord) = k" .
    from f False Cons.prems(3) have a1: "map_of (orders (fst s1)) k = Some oc"
      unfolding stepFrame_def by simp
    from f Cons.prems(4) have e1: "ev \<in> set (generatedEvents (fst s1))"
      unfolding stepFrame_def by auto
    from f False Cons.prems(5) have g1: "\<forall>e\<in>set (snd s1). eventOrdId e \<noteq> Some k"
      unfolding stepFrame_def by auto
    from f have "events (fst s1) = events (fst s)" unfolding stepFrame_def by simp
    with Cons.IH [OF rest k1 a1 e1 g1] show ?thesis by simp
  qed
qed

lemma orderLoop_before:
  assumes frame: "\<And>k' s s'. step k' s = Inr s' \<Longrightarrow>
             \<forall>k ord. map_of (orders (fst s)) k = Some ord \<longrightarrow> Id (Order' ord) = k \<Longrightarrow>
             stepFrame k' s s'"
    and skip: "\<And>b g ord. map_of (orders b) k = Some ord \<Longrightarrow> \<not> isActive ord \<Longrightarrow>
             step k (b, g) = Inr (b, g)"
    and target: "\<And>b g s1. map_of (orders b) k = Some ord \<Longrightarrow> step k (b, g) = Inr s1 \<Longrightarrow>
             snd s1 = g \<and> map_of (orders (fst s1)) k = Some oc \<and>
             ev \<in> set (generatedEvents (fst s1))"
    and inactive: "\<not> isActive oc"
    and run: "orderLoop step ks s = Inr s'"
    and mem: "k \<in> set ks"
    and keyed: "\<forall>k ord. map_of (orders (fst s)) k = Some ord \<longrightarrow> Id (Order' ord) = k"
    and at_k: "map_of (orders (fst s)) k = Some ord"
    and gen: "\<forall>e\<in>set (snd s). eventOrdId e \<noteq> Some k"
  shows "map_of (orders (fst s')) k = Some oc \<and> ev \<in> set (generatedEvents (fst s')) \<and>
         (\<forall>e\<in>set (snd s'). eventOrdId e \<noteq> Some k) \<and> events (fst s') = events (fst s)"
  using run mem keyed at_k gen
proof (induction ks arbitrary: s)
  case Nil
  then show ?case by simp
next
  case (Cons k' ks)
  from Cons.prems(1) obtain s1 where s1: "step k' s = Inr s1"
    and rest: "orderLoop step ks s1 = Inr s'" by (auto split: sum.splits)
  note f = frame [OF s1 Cons.prems(3)]
  from stepFrame_keyed [OF f Cons.prems(3)]
  have k1: "\<forall>k ord. map_of (orders (fst s1)) k = Some ord \<longrightarrow> Id (Order' ord) = k" .
  from f have ev1: "events (fst s1) = events (fst s)" unfolding stepFrame_def by simp
  show ?case
  proof (cases "k' = k")
    case True
    from s1 True have "step k (fst s, snd s) = Inr s1" by simp
    from target [OF Cons.prems(4) this]
    have t: "snd s1 = snd s" "map_of (orders (fst s1)) k = Some oc"
      "ev \<in> set (generatedEvents (fst s1))" by blast+
    from t(1) Cons.prems(5) have g1: "\<forall>e\<in>set (snd s1). eventOrdId e \<noteq> Some k" by simp
    have "map_of (orders (fst s')) k = Some oc \<and> ev \<in> set (generatedEvents (fst s')) \<and>
         (\<forall>e\<in>set (snd s'). eventOrdId e \<noteq> Some k) \<and> events (fst s') = events (fst s1)"
    proof (rule orderLoop_after [where step=step and k=k and oc=oc and ev=ev and ks=ks
            and s=s1 and s'=s'])
      show "\<And>k' s s'. step k' s = Inr s' \<Longrightarrow>
             \<forall>k ord. map_of (orders (fst s)) k = Some ord \<longrightarrow> Id (Order' ord) = k \<Longrightarrow>
             stepFrame k' s s'" by (rule frame)
      show "\<And>b g ord. map_of (orders b) k = Some ord \<Longrightarrow> \<not> isActive ord \<Longrightarrow>
             step k (b, g) = Inr (b, g)" by (rule skip)
    qed (rule inactive rest k1 t(2) t(3) g1)+
    with ev1 show ?thesis by simp
  next
    case False
    with Cons.prems(2) have mem': "k \<in> set ks" by simp
    from f False Cons.prems(4) have a1: "map_of (orders (fst s1)) k = Some ord"
      unfolding stepFrame_def by simp
    from f False Cons.prems(5) have g1: "\<forall>e\<in>set (snd s1). eventOrdId e \<noteq> Some k"
      unfolding stepFrame_def by auto
    from Cons.IH [OF rest mem' k1 a1 g1] ev1 show ?thesis by simp
  qed
qed

lemma cancelByTif_expired:
  assumes "cancelByTif b ord T = Inr (b1, c)" and "getExpirationTime ord = Inr x"
    and "After T x" and "map_of (orders b) k = Some ord" and "Id (Order' ord) = k"
  shows "c \<and>
         map_of (orders b1) k = Some (ord\<lparr>BrokerState := CanceledOrder, StateUpdTime := x\<rparr>) \<and>
         OrderCancelEvent x (Order.Ticker (Order' ord)) k \<in> set (generatedEvents b1)"
  using assms
  by (auto simp add: cancelByTif_def isExpired_def addBrokerEvent_def map_of_updOrder
      updOrder_fields)

lemma lookupTx_fixed:
  "\<forall>(w, off)\<in>set tx. off = z \<Longrightarrow> fst cur = z \<Longrightarrow> fst (lookupTx tx s cur) = z"
  by (induction tx arbitrary: cur) auto

lemma lookup_fixed: "fixedZone l \<Longrightarrow> fst (lookup l s) = zoneFirst l"
  unfolding fixedZone_def lookup_def by (rule lookupTx_fixed) simp_all

lemma fromCivil_fixed:
  assumes "fixedZone l"
  shows "fromCivil l c = c - zoneFirst l"
proof -
  obtain offset zstart zend where lk: "lookup l c = (offset, zstart, zend)"
    by (cases "lookup l c") auto
  from lookup_fixed [OF assms, of c] lk have o: "offset = zoneFirst l" by simp
  from lookup_fixed [OF assms, of "c - offset"] o
  have o': "fst (lookup l (c - zoneFirst l)) = zoneFirst l" by simp
  show ?thesis using lk o o' by (simp add: fromCivil_def Let_def)
qed

lemma localSec_fixed: "fixedZone (loc t) \<Longrightarrow> localSec t = Unix t + zoneFirst (loc t)"
  by (simp add: localSec_def lookup_fixed)

lemma localNs_fixed:
  "fixedZone (loc t) \<Longrightarrow> localNs t = nsec t + zoneFirst (loc t) * 1000000000"
  by (simp add: localNs_def lookup_fixed)

lemma AddDays_fixed:
  assumes "fixedZone (loc t)"
  shows "AddDays t n = t\<lparr>nsec := nsec t + n * dayNs\<rparr>"
proof -
  have "(nsec t div 1000000000) * 1000000000 + nsec t mod 1000000000 = nsec t" by simp
  then have "(Unix t + n * 86400) * 1000000000 + nsec t mod 1000000000 = nsec t + n * dayNs"
    by (simp add: Unix_def dayNs_def algebra_simps)
  then show ?thesis
    using assms by (simp add: AddDays_def fromCivil_fixed localSec_fixed)
qed

lemma localNs_day:
  assumes "fixedZone (loc t)"
  shows "localNs t div dayNs = localSec t div 86400"
proof -
  let ?z = "zoneFirst (loc t)"
  have "localNs t = (Unix t + ?z) * 1000000000 + nsec t mod 1000000000"
    using assms by (simp add: localNs_fixed Unix_def algebra_simps)
  then have "localNs t div 1000000000 = Unix t + ?z" by simp
  moreover have "localNs t div dayNs = (localNs t div 1000000000) div 86400"
    unfolding dayNs_def by (subst mult.commute) (simp add: zdiv_zmult2_eq)
  ultimately show ?thesis using assms by (simp add: localSec_fixed)
qed

lemma DateOnDayOf_fixed:
  assumes "fixedZone (loc t)"
  shows "loc (DateOnDayOf t 0 0 0) = loc t"
    and "localNs (DateOnDayOf t 0 0 0) = (localNs t div dayNs) * dayNs"
proof -
  let ?z = "zoneFirst (loc t)"
  let ?d = "localSec t div 86400"
  show l: "loc (DateOnDayOf t 0 0 0) = loc t" by (simp add: DateOnDayOf_def)
  have n: "nsec (DateOnDayOf t 0 0 0) = (?d * 86400 - ?z) * 1000000000"
    using assms by (simp add: DateOnDayOf_def fromCivil_fixed)
  have "localNs (DateOnDayOf t 0 0 0) = nsec (DateOnDayOf t 0 0 0) + ?z * 1000000000"
    using assms l by (simp add: localNs_fixed)
  also have "\<dots> = ?d * dayNs" unfolding n by (simp add: dayNs_def algebra_simps)
  finally show "localNs (DateOnDayOf t 0 0 0) = (localNs t div dayNs) * dayNs"
    using localNs_day [OF assms] by simp
qed

lemma day_expiration:
  assumes "Tif (Order' ord) = DayTIF" and "getExpirationTime ord = Inr x"
    and fixed: "fixedZone (loc (Time (Order' ord)))"
  shows "loc x = loc (Time (Order' ord)) \<and> localNs x mod dayNs = 0 \<and>
         localNs (Time (Order' ord)) < localNs x \<and>
         localNs x \<le> localNs (Time (Order' ord)) + dayNs"
proof -
  let ?T = "Time (Order' ord)"
  let ?N = "?T\<lparr>nsec := nsec ?T + dayNs\<rparr>"
  have d: "0 < dayNs" by (simp add: dayNs_def)
  have N: "AddDays ?T 1 = ?N" using AddDays_fixed [OF fixed, of 1] by simp
  have fN: "fixedZone (loc ?N)" using fixed by simp
  from assms have x: "x = DateOnDayOf ?N 0 0 0"
    by (simp add: getExpirationTime_def Let_def N)
  have l: "localNs ?N = localNs ?T + dayNs"
    using fixed by (simp add: localNs_fixed)
  have "localNs x = (localNs ?N div dayNs) * dayNs"
    unfolding x by (rule DateOnDayOf_fixed(2) [OF fN])
  also have "\<dots> = ((localNs ?T + dayNs) div dayNs) * dayNs" by (simp only: l)
  also have "(localNs ?T + dayNs) div dayNs = localNs ?T div dayNs + 1"
    using d by simp
  finally have lx: "localNs x = (localNs ?T div dayNs + 1) * dayNs" .
  define q where "q = localNs ?T div dayNs"
  define r where "r = localNs ?T mod dayNs"
  have m: "localNs ?T = q * dayNs + r" by (simp add: q_def r_def)
  have r: "0 \<le> r" "r < dayNs" using d by (simp_all add: r_def)
  have lx': "localNs x = q * dayNs + dayNs" unfolding lx q_def by (simp add: algebra_simps)
  have "loc x = loc ?T" unfolding x using DateOnDayOf_fixed(1) [OF fN] by simp
  moreover have "localNs x mod dayNs = 0" unfolding lx by simp
  moreover have "localNs ?T < localNs x" using m r lx' by linarith
  moreover have "localNs x \<le> localNs ?T + dayNs" using m r lx' by linarith
  ultimately show ?thesis by blast
qed

lemma tickStep_target:
  assumes "map_of (orders b) k = Some ord" and "Id (Order' ord) = k" and "isActive ord"
    and "getExpirationTime ord = Inr x"
    and "Symbol (Order.Ticker (Order' ord)) = Symbol tk"
    and "Before (StateUpdTime ord) (Tick.Datetime tick)" and "After (Tick.Datetime tick) x"
    and "tickStep tk tick k (b, g) = Inr s1"
  shows "snd s1 = g \<and>
         map_of (orders (fst s1)) k = Some (ord\<lparr>BrokerState := CanceledOrder, StateUpdTime := x\<rparr>) \<and>
         OrderCancelEvent x (Order.Ticker (Order' ord)) k \<in> set (generatedEvents (fst s1))"
proof -
  from assms obtain b1 c where c: "cancelByTif b ord (Tick.Datetime tick) = Inr (b1, c)"
    by (auto simp add: tickStep_def split: sum.splits)
  from cancelByTif_expired [OF c assms(4) assms(7) assms(1) assms(2)] c assms
  show ?thesis by (auto simp add: tickStep_def)
qed

lemma candleCloseStep_target:
  assumes "map_of (orders b) k = Some ord" and "Id (Order' ord) = k" and "isActive ord"
    and "getExpirationTime ord = Inr x"
    and "Symbol (Order.Ticker (Order' ord)) = Symbol (Candle.Ticker c)"
    and "Before (StateUpdTime ord) t" and "After (Candle.Datetime c) x"
    and "candleCloseStep t tk c tf k (b, g) = Inr s1"
  shows "snd s1 = g \<and>
         map_of (orders (fst s1)) k = Some (ord\<lparr>BrokerState := CanceledOrder, StateUpdTime := x\<rparr>) \<and>
         OrderCancelEvent x (Order.Ticker (Order' ord)) k \<in> set (generatedEvents (fst s1))"
proof -
  from assms obtain b1 cn where c: "cancelByTif b ord (Candle.Datetime c) = Inr (b1, cn)"
    by (auto simp add: candleCloseStep_def split: sum.splits)
  from cancelByTif_expired [OF c assms(4) assms(7) assms(1) assms(2)] c assms
  show ?thesis by (auto simp add: candleCloseStep_def)
qed

lemma candleOpenStep_target:
  assumes "map_of (orders b) k = Some ord" and "Id (Order' ord) = k" and "isActive ord"
    and "getExpirationTime ord = Inr x"
    and "InstrAddr (Order.Ticker (Order' ord)) = InstrAddr tk"
    and "Before (StateUpdTime ord) candleTime" and "After candleTime x"
    and "candleOpenStep t tk candleTime price tf k (b, g) = Inr s1"
  shows "snd s1 = g \<and>
         map_of (orders (fst s1)) k = Some (ord\<lparr>BrokerState := CanceledOrder, StateUpdTime := x\<rparr>) \<and>
         OrderCancelEvent x (Order.Ticker (Order' ord)) k \<in> set (generatedEvents (fst s1))"
proof -
  from assms obtain b1 cn where c: "cancelByTif b ord candleTime = Inr (b1, cn)"
    by (auto simp add: candleOpenStep_def split: sum.splits)
  from cancelByTif_expired [OF c assms(4) assms(7) assms(1) assms(2)] c assms
  show ?thesis by (auto simp add: candleOpenStep_def)
qed

lemma matchOrders_expired:
  assumes keyed: "\<forall>k ord. map_of (orders b) k = Some ord \<longrightarrow> Id (Order' ord) = k"
    and at_k: "map_of (orders b) k = Some ord"
    and act: "isActive ord"
    and exp: "getExpirationTime ord = Inr x"
    and due: "dueOn mdEvent ord x"
    and run: "matchOrders b mdEvent = Inr (b2, gen)"
  shows "map_of (orders b2) k = Some (ord\<lparr>BrokerState := CanceledOrder, StateUpdTime := x\<rparr>) \<and>
         OrderCancelEvent x (Order.Ticker (Order' ord)) k \<in> set (generatedEvents b2) \<and>
         (\<forall>e\<in>set gen. eventOrdId e \<noteq> Some k) \<and> events b2 = events b"
proof -
  from keyed at_k have id: "Id (Order' ord) = k" by simp
  have inactive: "\<not> isActive (ord\<lparr>BrokerState := CanceledOrder, StateUpdTime := x\<rparr>)"
    by (simp add: isActive_def)
  from at_k have mem: "k \<in> set (orderKeys b)"
    by (auto simp add: orderKeys_def dest: map_of_SomeD intro: rev_image_eqI)
  show ?thesis
  proof (cases mdEvent)
    case (NewTickEvent t tk tick)
    with due have d: "Symbol (Order.Ticker (Order' ord)) = Symbol tk"
      "Before (StateUpdTime ord) (Tick.Datetime tick)" "After (Tick.Datetime tick) x"
      by (simp_all add: dueOn_def)
    from run NewTickEvent
    have loop: "orderLoop (tickStep tk tick) (orderKeys b) (b, []) = Inr (b2, gen)"
      by (simp add: matchOrders_def)
    have "map_of (orders (fst (b2, gen))) k = Some (ord\<lparr>BrokerState := CanceledOrder, StateUpdTime := x\<rparr>) \<and>
          OrderCancelEvent x (Order.Ticker (Order' ord)) k \<in> set (generatedEvents (fst (b2, gen))) \<and>
          (\<forall>e\<in>set (snd (b2, gen)). eventOrdId e \<noteq> Some k) \<and>
          events (fst (b2, gen)) = events (fst (b, [] :: event list))"
    proof (rule orderLoop_before [where step="tickStep tk tick" and k=k and ord=ord
          and oc="ord\<lparr>BrokerState := CanceledOrder, StateUpdTime := x\<rparr>"
          and ev="OrderCancelEvent x (Order.Ticker (Order' ord)) k"
          and ks="orderKeys b" and s="(b, [])" and s'="(b2, gen)"])
      fix k' s s'
      assume "tickStep tk tick k' s = Inr s'"
        and "\<forall>k ord. map_of (orders (fst s)) k = Some ord \<longrightarrow> Id (Order' ord) = k"
      then show "stepFrame k' s s'" by (rule tickStep_frame)
    next
      fix b :: simBrokerWorker and g :: "event list" and ord'
      assume "map_of (orders b) k = Some ord'" and "\<not> isActive ord'"
      then show "tickStep tk tick k (b, g) = Inr (b, g)" by (rule tickStep_skip)
    next
      fix b :: simBrokerWorker and g :: "event list" and s1
      assume a: "map_of (orders b) k = Some ord" "tickStep tk tick k (b, g) = Inr s1"
      show "snd s1 = g \<and>
            map_of (orders (fst s1)) k = Some (ord\<lparr>BrokerState := CanceledOrder, StateUpdTime := x\<rparr>) \<and>
            OrderCancelEvent x (Order.Ticker (Order' ord)) k \<in> set (generatedEvents (fst s1))"
        by (rule tickStep_target [OF a(1) id act exp d a(2)])
    next
      show "\<not> isActive (ord\<lparr>BrokerState := CanceledOrder, StateUpdTime := x\<rparr>)" by (rule inactive)
      show "orderLoop (tickStep tk tick) (orderKeys b) (b, []) = Inr (b2, gen)" by (rule loop)
      show "k \<in> set (orderKeys b)" by (rule mem)
      show "\<forall>k ord. map_of (orders (fst (b, [] :: event list))) k = Some ord
              \<longrightarrow> Id (Order' ord) = k"
        using keyed by simp
      show "map_of (orders (fst (b, [] :: event list))) k = Some ord" using at_k by simp
      show "\<forall>e\<in>set (snd (b, [] :: event list)). eventOrdId e \<noteq> Some k" by simp
    qed
    then show ?thesis by simp
  next
    case (CandleCloseEvent t tk c tf)
    with due have d: "Symbol (Order.Ticker (Order' ord)) = Symbol (Candle.Ticker c)"
      "Before (StateUpdTime ord) t" "After (Candle.Datetime c) x"
      by (simp_all add: dueOn_def)
    from run CandleCloseEvent
    have loop: "orderLoop (candleCloseStep t tk c tf) (orderKeys b) (b, []) = Inr (b2, gen)"
      by (simp add: matchOrders_def)
    have "map_of (orders (fst (b2, gen))) k = Some (ord\<lparr>BrokerState := CanceledOrder, StateUpdTime := x\<rparr>) \<and>
          OrderCancelEvent x (Order.Ticker (Order' ord)) k \<in> set (generatedEvents (fst (b2, gen))) \<and>
          (\<forall>e\<in>set (snd (b2, gen)). eventOrdId e \<noteq> Some k) \<and>
          events (fst (b2, gen)) = events (fst (b, [] :: event list))"
    proof (rule orderLoop_before [where step="candleCloseStep t tk c tf" and k=k and ord=ord
          and oc="ord\<lparr>BrokerState := CanceledOrder, StateUpdTime := x\<rparr>"
          and ev="OrderCancelEvent x (Order.Ticker (Order' ord)) k"
          and ks="orderKeys b" and s="(b, [])" and s'="(b2, gen)"])
      fix k' s s'
      assume "candleCloseStep t tk c tf k' s = Inr s'"
        and "\<forall>k ord. map_of (orders (fst s)) k = Some ord \<longrightarrow> Id (Order' ord) = k"
      then show "stepFrame k' s s'" by (rule candleCloseStep_frame)
    next
      fix b :: simBrokerWorker and g :: "event list" and ord'
      assume "map_of (orders b) k = Some ord'" and "\<not> isActive ord'"
      then show "candleCloseStep t tk c tf k (b, g) = Inr (b, g)" by (rule candleCloseStep_skip)
    next
      fix b :: simBrokerWorker and g :: "event list" and s1
      assume a: "map_of (orders b) k = Some ord" "candleCloseStep t tk c tf k (b, g) = Inr s1"
      show "snd s1 = g \<and>
            map_of (orders (fst s1)) k = Some (ord\<lparr>BrokerState := CanceledOrder, StateUpdTime := x\<rparr>) \<and>
            OrderCancelEvent x (Order.Ticker (Order' ord)) k \<in> set (generatedEvents (fst s1))"
        by (rule candleCloseStep_target [OF a(1) id act exp d a(2)])
    next
      show "\<not> isActive (ord\<lparr>BrokerState := CanceledOrder, StateUpdTime := x\<rparr>)" by (rule inactive)
      show "orderLoop (candleCloseStep t tk c tf) (orderKeys b) (b, []) = Inr (b2, gen)" by (rule loop)
      show "k \<in> set (orderKeys b)" by (rule mem)
      show "\<forall>k ord. map_of (orders (fst (b, [] :: event list))) k = Some ord
              \<longrightarrow> Id (Order' ord) = k"
        using keyed by simp
      show "map_of (orders (fst (b, [] :: event list))) k = Some ord" using at_k by simp
      show "\<forall>e\<in>set (snd (b, [] :: event list)). eventOrdId e \<noteq> Some k" by simp
    qed
    then show ?thesis by simp
  next
    case (CandleOpenEvent t tk candleTime price tf)
    with due have d: "InstrAddr (Order.Ticker (Order' ord)) = InstrAddr tk"
      "Before (StateUpdTime ord) candleTime" "After candleTime x"
      by (simp_all add: dueOn_def)
    from run CandleOpenEvent
    have loop: "orderLoop (candleOpenStep t tk candleTime price tf) (orderKeys b) (b, []) = Inr (b2, gen)"
      by (simp add: matchOrders_def)
    have "map_of (orders (fst (b2, gen))) k = Some (ord\<lparr>BrokerState := CanceledOrder, StateUpdTime := x\<rparr>) \<and>
          OrderCancelEvent x (Order.Ticker (Order' ord)) k \<in> set (generatedEvents (fst (b2, gen))) \<and>
          (\<forall>e\<in>set (snd (b2, gen)). eventOrdId e \<noteq> Some k) \<and>
          events (fst (b2, gen)) = events (fst (b, [] :: event list))"
    proof (rule orderLoop_before [where step="candleOpenStep t tk candleTime price tf" and k=k and ord=ord
          and oc="ord\<lparr>BrokerState := CanceledOrder, StateUpdTime := x\<rparr>"
          and ev="OrderCancelEvent x (Order.Ticker (Order' ord)) k"
          and ks="orderKeys b" and s="(b, [])" and s'="(b2, gen)"])
      fix k' s s'
      assume "candleOpenStep t tk candleTime price tf k' s = Inr s'"
        and "\<forall>k ord. map_of (orders (fst s)) k = Some ord \<longrightarrow> Id (Order' ord) = k"
      then show "stepFrame k' s s'" by (rule candleOpenStep_frame)
    next
      fix b :: simBrokerWorker and g :: "event list" and ord'
      assume "map_of (orders b) k = Some ord'" and "\<not> isActive ord'"
      then show "candleOpenStep t tk candleTime price tf k (b, g) = Inr (b, g)" by (rule candleOpenStep_skip)
    next
      fix b :: simBrokerWorker and g :: "event list" and s1
      assume a: "map_of (orders b) k = Some ord" "candleOpenStep t tk candleTime price tf k (b, g) = Inr s1"
      show "snd s1 = g \<and>
            map_of (orders (fst s1)) k = Some (ord\<lparr>BrokerState := CanceledOrder, StateUpdTime := x\<rparr>) \<and>
            OrderCancelEvent x (Order.Ticker (Order' ord)) k \<in> set (generatedEvents (fst s1))"
        by (rule candleOpenStep_target [OF a(1) id act exp d a(2)])
    next
      show "\<not> isActive (ord\<lparr>BrokerState := CanceledOrder, StateUpdTime := x\<rparr>)" by (rule inactive)
      show "orderLoop (candleOpenStep t tk candleTime price tf) (orderKeys b) (b, []) = Inr (b2, gen)" by (rule loop)
      show "k \<in> set (orderKeys b)" by (rule mem)
      show "\<forall>k ord. map_of (orders (fst (b, [] :: event list))) k = Some ord
              \<longrightarrow> Id (Order' ord) = k"
        using keyed by simp
      show "map_of (orders (fst (b, [] :: event list))) k = Some ord" using at_k by simp
      show "\<forall>e\<in>set (snd (b, [] :: event list)). eventOrdId e \<noteq> Some k" by simp
    qed
    then show ?thesis by simp
  qed (use due in \<open>simp_all add: dueOn_def\<close>)
qed

lemma ordersKeyed_map_of:
  "ordersKeyed b \<Longrightarrow> \<forall>k ord. map_of (orders b) k = Some ord \<longrightarrow> Id (Order' ord) = k"
  by (auto simp add: ordersKeyed_def dest!: map_of_SomeD)


section \<open>An invariant of the worker\<close>

text \<open>
  Every order is stored under its own id: this holds of a worker with an empty map, and
  \<open>notify\<close> preserves it, since \<open>onNewOrder\<close> stores an order under its id and
  \<open>addBrokerEvent\<close> updates the fields of the broker only.
\<close>

lemma set_map_entry:
  "(k', v') \<in> set (AList.map_entry k f xs) \<Longrightarrow>
     \<exists>v. (k', v) \<in> set xs \<and> (v' = v \<or> v' = f v)"
  by (induction xs) (auto split: if_splits)

lemma set_update:
  "(k', v') \<in> set (AList.update k v xs) \<Longrightarrow> (k', v') = (k, v) \<or> (k', v') \<in> set xs"
  by (induction xs) (auto split: if_splits)

lemma ordersKeyed_updOrder:
  assumes "ordersKeyed b" and "\<And>x. Order' (f x) = Order' x"
  shows "ordersKeyed (updOrder k f b)"
  using assms unfolding ordersKeyed_def updOrder_def
  by (auto dest!: set_map_entry)

lemma ordersKeyed_applyBrokerEvent:
  "ordersKeyed b \<Longrightarrow> applyBrokerEvent b e = Inr b' \<Longrightarrow> ordersKeyed b'"
  by (cases e) (auto split: option.splits if_splits intro!: ordersKeyed_updOrder)

lemma ordersKeyed_fields:
  "ordersKeyed (b\<lparr>generatedEvents := g\<rparr>) = ordersKeyed b"
  "ordersKeyed (b\<lparr>requestEvents := r\<rparr>) = ordersKeyed b"
  "ordersKeyed (b\<lparr>events := ev\<rparr>) = ordersKeyed b"
  "ordersKeyed (b\<lparr>errChan := er\<rparr>) = ordersKeyed b"
  "ordersKeyed (b\<lparr>lastTickTime := t\<rparr>) = ordersKeyed b"
  "ordersKeyed (b\<lparr>lastCandleTime := t\<rparr>) = ordersKeyed b"
  by (simp_all add: ordersKeyed_def)

lemma ordersKeyed_addBrokerEvent:
  "ordersKeyed b \<Longrightarrow> addBrokerEvent b e = Inr b' \<Longrightarrow> ordersKeyed b'"
  by (auto simp add: addBrokerEvent_def ordersKeyed_fields split: sum.splits
      dest: ordersKeyed_applyBrokerEvent)

lemma ordersKeyed_update:
  "ordersKeyed b \<Longrightarrow> Id (Order' v) = k \<Longrightarrow> ordersKeyed (b\<lparr>orders := AList.update k v (orders b)\<rparr>)"
  unfolding ordersKeyed_def by (auto dest!: set_update)

lemma ordersKeyed_handleRequest:
  assumes "ordersKeyed b" and "handleRequest b e = Inr b'"
  shows "ordersKeyed b'"
proof (cases e)
  case (NewOrderEvent t tk lo)
  with assms show ?thesis
    by (auto simp add: onNewOrder_def Let_def split: if_splits
        dest!: ordersKeyed_addBrokerEvent [rotated] intro!: ordersKeyed_update)
next
  case (OrderCancelRequestEvent t tk k)
  with assms show ?thesis
    by (auto simp add: onCancelRequest_def Let_def split: option.splits if_splits
        dest: ordersKeyed_addBrokerEvent)
next
  case (OrderReplaceRequestEvent t tk k p)
  with assms show ?thesis
    by (auto simp add: onReplaceRequest_def Let_def split: option.splits if_splits
        dest: ordersKeyed_addBrokerEvent)
qed (use assms in simp_all)

lemma ordersKeyed_proceedLoop:
  "ordersKeyed b \<Longrightarrow> proceedLoop T es b left = Inr (b', left') \<Longrightarrow> ordersKeyed b'"
proof (induction es arbitrary: b left)
  case Nil
  then show ?case by simp
next
  case (Cons e es)
  then show ?case
    by (auto split: if_splits sum.splits dest: ordersKeyed_handleRequest)
qed

lemma ordersKeyed_proceedStoredRequests:
  "ordersKeyed b \<Longrightarrow> proceedStoredRequests b T = Inr b' \<Longrightarrow> ordersKeyed b'"
  by (auto simp add: proceedStoredRequests_def Let_def ordersKeyed_fields
      split: if_splits sum.splits
      dest!: ordersKeyed_proceedLoop [rotated])

lemma ordersKeyed_cancelByTif:
  assumes "ordersKeyed b" and "cancelByTif b ord t = Inr (b', c)"
  shows "ordersKeyed b'"
  using cancelByTif_cases [OF assms(2)] assms(1) by (auto dest: ordersKeyed_addBrokerEvent)

lemma ordersKeyed_tickStep:
  assumes "ordersKeyed (fst s)" and "tickStep tk tick k s = Inr s'"
  shows "ordersKeyed (fst s')"
proof (cases s)
  case (Pair b g)
  with assms show ?thesis
    by (auto simp add: tickStep_def ordersKeyed_fields
        split: option.splits if_splits sum.splits prod.splits
        dest: ordersKeyed_cancelByTif)
qed

lemma ordersKeyed_candleCloseStep:
  assumes "ordersKeyed (fst s)" and "candleCloseStep t tk c tf k s = Inr s'"
  shows "ordersKeyed (fst s')"
proof (cases s)
  case (Pair b g)
  with assms show ?thesis
    by (auto simp add: candleCloseStep_def
        split: option.splits if_splits sum.splits prod.splits
        dest: ordersKeyed_cancelByTif)
qed

lemma ordersKeyed_candleOpenStep:
  assumes "ordersKeyed (fst s)" and "candleOpenStep t tk candleTime price tf k s = Inr s'"
  shows "ordersKeyed (fst s')"
proof (cases s)
  case (Pair b g)
  with assms show ?thesis
    by (auto simp add: candleOpenStep_def
        split: option.splits if_splits sum.splits prod.splits
        dest: ordersKeyed_cancelByTif)
qed

lemma ordersKeyed_orderLoop:
  assumes "\<And>k s s'. ordersKeyed (fst s) \<Longrightarrow> step k s = Inr s' \<Longrightarrow> ordersKeyed (fst s')"
  shows "ordersKeyed (fst s) \<Longrightarrow> orderLoop step ks s = Inr s' \<Longrightarrow> ordersKeyed (fst s')"
proof (induction ks arbitrary: s)
  case Nil
  then show ?case by simp
next
  case (Cons k ks)
  from Cons.prems(2) obtain s1 where s1: "step k s = Inr s1"
    and rest: "orderLoop step ks s1 = Inr s'" by (auto split: sum.splits)
  from assms [OF Cons.prems(1) s1] have "ordersKeyed (fst s1)" .
  from Cons.IH [OF this rest] show ?case .
qed

lemma ordersKeyed_matchOrders:
  assumes "ordersKeyed b" and "matchOrders b mdEvent = Inr (b2, gen)"
  shows "ordersKeyed b2"
proof (cases mdEvent)
  case (NewTickEvent t tk tick)
  with assms(2) have "orderLoop (tickStep tk tick) (orderKeys b) (b, []) = Inr (b2, gen)"
    by (simp add: matchOrders_def)
  from ordersKeyed_orderLoop [where step = "tickStep tk tick", OF ordersKeyed_tickStep _ this]
    assms(1) show ?thesis by simp
next
  case (CandleCloseEvent t tk c tf)
  with assms(2)
  have "orderLoop (candleCloseStep t tk c tf) (orderKeys b) (b, []) = Inr (b2, gen)"
    by (simp add: matchOrders_def)
  from ordersKeyed_orderLoop [where step = "candleCloseStep t tk c tf",
      OF ordersKeyed_candleCloseStep _ this]
    assms(1) show ?thesis by simp
next
  case (CandleOpenEvent t tk candleTime price tf)
  with assms(2)
  have "orderLoop (candleOpenStep t tk candleTime price tf) (orderKeys b) (b, [])
          = Inr (b2, gen)"
    by (simp add: matchOrders_def)
  from ordersKeyed_orderLoop [where step = "candleOpenStep t tk candleTime price tf",
      OF ordersKeyed_candleOpenStep _ this]
    assms(1) show ?thesis by simp
qed (use assms(2) in \<open>simp_all add: matchOrders_def\<close>)

lemma ordersKeyed_addBrokerEvents:
  "ordersKeyed b \<Longrightarrow> addBrokerEvents b es = Inr b' \<Longrightarrow> ordersKeyed b'"
proof (induction es arbitrary: b)
  case Nil
  then show ?case by simp
next
  case (Cons e es)
  then show ?case by (auto split: sum.splits dest: ordersKeyed_addBrokerEvent)
qed

lemma ordersKeyed_findExecutions:
  assumes "ordersKeyed b" and "findExecutions b mdEvent = Inr b'"
  shows "ordersKeyed b'"
proof (cases "orders b = [] \<and> generatedEvents b = []")
  case True
  with assms show ?thesis by (auto simp add: findExecutions_def ordersKeyed_fields)
next
  case False
  let ?b1 = "b\<lparr>generatedEvents := generatedEvents b @ [mdEvent]\<rparr>"
  from assms(2) False obtain b2 gen where m: "matchOrders ?b1 mdEvent = Inr (b2, gen)"
    by (auto simp add: findExecutions_def Let_def split: sum.splits)
  from assms(2) False m obtain b3 where a: "addBrokerEvents b2 gen = Inr b3"
    by (auto simp add: findExecutions_def Let_def split: sum.splits)
  have "ordersKeyed ?b1" using assms(1) by (simp add: ordersKeyed_fields)
  from ordersKeyed_matchOrders [OF this m] have "ordersKeyed b2" .
  from ordersKeyed_addBrokerEvents [OF this a] have k3: "ordersKeyed b3" .
  from assms(2) False m a obtain g ev where "b' = b3\<lparr>generatedEvents := g, events := ev\<rparr>"
    by (auto simp add: findExecutions_def Let_def split: prod.splits)
  with k3 show ?thesis by (simp add: ordersKeyed_def)
qed

lemma ordersKeyed_notify:
  assumes "ordersKeyed b" and "notify b e = Inr b'"
  shows "ordersKeyed b'"
proof (cases e)
  case (NewTickEvent t tk tick)
  with assms show ?thesis
    by (auto simp add: onTick_def newError_def ordersKeyed_fields
        split: if_splits sum.splits
        dest!: ordersKeyed_proceedStoredRequests [rotated]
        dest: ordersKeyed_findExecutions)
next
  case (CandleOpenEvent t tk candleTime price tf)
  with assms show ?thesis
    by (auto simp add: onCandleOpen_def ordersKeyed_fields
        split: if_splits sum.splits
        dest!: ordersKeyed_proceedStoredRequests [rotated]
        dest: ordersKeyed_findExecutions)
next
  case (CandleCloseEvent t tk c tf)
  with assms show ?thesis
    by (auto simp add: onCandleClose_def ordersKeyed_fields
        split: if_splits sum.splits
        dest!: ordersKeyed_proceedStoredRequests [rotated]
        dest: ordersKeyed_findExecutions)
qed (use assms in \<open>auto simp add: addRequestEvent_def ordersKeyed_fields\<close>)

lemma ordersKeyed_notifyAll:
  "ordersKeyed b \<Longrightarrow> notifyAll b es = Inr b' \<Longrightarrow> ordersKeyed b'"
proof (induction es arbitrary: b)
  case Nil
  then show ?case by simp
next
  case (Cons e es)
  then show ?case by (auto split: sum.splits dest: ordersKeyed_notify)
qed

lemma ordersKeyed_empty: "orders b = [] \<Longrightarrow> ordersKeyed b"
  by (simp add: ordersKeyed_def)

section \<open>The cancel of an expired day order\<close>

text \<open>
  Claim C5, as amended. A day order expires at the instant \<open>x\<close> that \<open>time.Date\<close> gives
  for 00:00:00 on the calendar day of \<open>o.Time.AddDate(0, 0, 1)\<close>, in the location of the
  submission time stamp of the order. When that location has a fixed offset from UTC,
  \<open>x\<close> is the midnight that follows the submission on the wall clock of the location:
  it is in that location, it is a midnight there, it is later than the submission and
  at most 24 hours later. The worker compares \<open>x\<close> with the time stamp that the market data carries, and
  the last state update of the order with a time that depends on the kind of the event.
  The order is due on

  \<^item> a tick event when its symbol is that of the event, its last state update is before
    the \<open>Datetime\<close> of the tick, and the \<open>Datetime\<close> of the tick is after \<open>x\<close>;

  \<^item> a candle-close event when its symbol is that of the candle, its last state update
    is before the time of the event, and the \<open>Datetime\<close> of the candle is after \<open>x\<close>;

  \<^item> a candle-open event when its instrument is that of the event, its last state
    update is before the \<open>CandleTime\<close> of the event, and the \<open>CandleTime\<close> is after \<open>x\<close>.

  The worker holds every order under the order's own id, as every worker started with an
  empty map does. When \<open>findExecutions\<close> runs on an event on which an active day order
  is due, and returns, it has produced an \<open>OrderCancelEvent\<close> stamped exactly \<open>x\<close> for
  the order (it is among the events sent on that run or kept in the buffer of generated
  events, and among those sent when \<open>x\<close> is not after the time of the event), it has
  marked the order canceled at \<open>x\<close>, and the matching of that run has generated no
  event, hence no fill, for the order.
\<close>

theorem day_order_expires:
  assumes keyed: "ordersKeyed b"
    and at_k: "map_of (orders b) k = Some ord"
    and day: "Tif (Order' ord) = DayTIF"
    and act: "isActive ord"
    and exp: "getExpirationTime ord = Inr x"
    and due: "dueOn mdEvent ord x"
    and run: "findExecutions b mdEvent = Inr b'"
  shows "x = DateOnDayOf (AddDays (Time (Order' ord)) 1) 0 0 0 \<and>
         (fixedZone (loc (Time (Order' ord))) \<longrightarrow>
            loc x = loc (Time (Order' ord)) \<and> localNs x mod dayNs = 0 \<and>
            localNs (Time (Order' ord)) < localNs x \<and>
            localNs x \<le> localNs (Time (Order' ord)) + dayNs) \<and>
         (\<exists>sent. events b' = events b @ sent \<and>
            OrderCancelEvent x (Order.Ticker (Order' ord)) k
              \<in> set sent \<union> set (generatedEvents b') \<and>
            (\<not> After x (getTime mdEvent) \<longrightarrow>
               OrderCancelEvent x (Order.Ticker (Order' ord)) k \<in> set sent)) \<and>
         map_of (orders b') k = Some (ord\<lparr>BrokerState := CanceledOrder, StateUpdTime := x\<rparr>) \<and>
         (\<forall>b2 genEvents.
            matchOrders (b\<lparr>generatedEvents := generatedEvents b @ [mdEvent]\<rparr>) mdEvent
              = Inr (b2, genEvents) \<longrightarrow>
            (\<forall>e\<in>set genEvents. eventOrdId e \<noteq> Some k))"
proof -
  let ?ev = "OrderCancelEvent x (Order.Ticker (Order' ord)) k"
  let ?b1 = "b\<lparr>generatedEvents := generatedEvents b @ [mdEvent]\<rparr>"
  have k1: "\<forall>k ord. map_of (orders ?b1) k = Some ord \<longrightarrow> Id (Order' ord) = k"
    using ordersKeyed_map_of [OF keyed] by simp
  have a1: "map_of (orders ?b1) k = Some ord" using at_k by simp
  have ne: "orders b \<noteq> []" using at_k by auto
  from run ne obtain b2 gen where m: "matchOrders ?b1 mdEvent = Inr (b2, gen)"
    by (auto simp add: findExecutions_def Let_def split: sum.splits)
  from run ne m obtain b3 where a: "addBrokerEvents b2 gen = Inr b3"
    by (auto simp add: findExecutions_def Let_def split: sum.splits)
  from matchOrders_expired [OF k1 a1 act exp due m]
  have m2: "map_of (orders b2) k = Some (ord\<lparr>BrokerState := CanceledOrder, StateUpdTime := x\<rparr>)"
    and ev2: "?ev \<in> set (generatedEvents b2)"
    and g2: "\<forall>e\<in>set gen. eventOrdId e \<noteq> Some k"
    and e2: "events b2 = events b" by simp_all
  from addBrokerEvents_frame [OF a g2] m2 ev2 e2
  have m3: "map_of (orders b3) k = Some (ord\<lparr>BrokerState := CanceledOrder, StateUpdTime := x\<rparr>)"
    and ev3: "?ev \<in> set (generatedEvents b3)"
    and e3: "events b3 = events b" by simp_all
  let ?sorted = "sortEvents (generatedEvents b3)"
  let ?send = "filter (\<lambda>e. \<not> After (getTime e) (getTime mdEvent)) ?sorted"
  let ?left = "filter (\<lambda>e. After (getTime e) (getTime mdEvent)) ?sorted"
  from run ne m a have b': "b' = b3\<lparr>generatedEvents := ?left, events := events b3 @ ?send\<rparr>"
    by (simp add: findExecutions_def Let_def releaseLoop_filter)
  have evs: "?ev \<in> set ?sorted" using ev3 by (simp add: sortEvents_def)
  have c1: "events b' = events b @ ?send" by (simp add: b' e3)
  have c2: "?ev \<in> set ?send \<union> set (generatedEvents b')" using evs by (auto simp add: b')
  have c3: "\<not> After x (getTime mdEvent) \<longrightarrow> ?ev \<in> set ?send" using evs by simp
  have c4: "map_of (orders b') k = Some (ord\<lparr>BrokerState := CanceledOrder, StateUpdTime := x\<rparr>)"
    using m3 by (simp add: b')
  have c5: "\<forall>b2 genEvents. matchOrders ?b1 mdEvent = Inr (b2, genEvents) \<longrightarrow>
            (\<forall>e\<in>set genEvents. eventOrdId e \<noteq> Some k)"
    using matchOrders_expired [OF k1 a1 act exp due] by blast
  have c0: "x = DateOnDayOf (AddDays (Time (Order' ord)) 1) 0 0 0"
    using day exp by (simp add: getExpirationTime_def Let_def)
  have c0': "fixedZone (loc (Time (Order' ord))) \<longrightarrow>
            loc x = loc (Time (Order' ord)) \<and> localNs x mod dayNs = 0 \<and>
            localNs (Time (Order' ord)) < localNs x \<and>
            localNs x \<le> localNs (Time (Order' ord)) + dayNs"
    using day_expiration [OF day exp] by blast
  from c0 c0' c1 c2 c3 c4 c5 show ?thesis by blast
qed

text \<open>
  The example order, submitted and confirmed on 2024-01-15 at 14:30 UTC, is due at
  2024-01-16 00:00:00 UTC. A tick on 2024-01-16 at 09:30 cancels it at midnight.
\<close>

theorem day_order_expires_witness:
  "findExecutions ex_worker_o1 (ex_tick_event 1705397400000000000) =
     Inr (ex_worker_o1
           \<lparr>orders := [(''o1'', ex_confirmed\<lparr>BrokerState := CanceledOrder,
                                            StateUpdTime := utc 1705363200000000000\<rparr>)],
            events := [OrderCancelEvent (utc 1705363200000000000) ex_instr ''o1'',
                       ex_tick_event 1705397400000000000]\<rparr>) \<and>
   localNs (utc 1705363200000000000) mod dayNs = 0 \<and>
   localNs (Time ex_order) < localNs (utc 1705363200000000000) \<and>
   localNs (utc 1705363200000000000) \<le> localNs (Time ex_order) + dayNs"
proof -
  let ?b' = "ex_worker_o1
           \<lparr>orders := [(''o1'', ex_confirmed\<lparr>BrokerState := CanceledOrder,
                                            StateUpdTime := utc 1705363200000000000\<rparr>)],
            events := [OrderCancelEvent (utc 1705363200000000000) ex_instr ''o1'',
                       ex_tick_event 1705397400000000000]\<rparr>"
  have h1: "ordersKeyed ex_worker_o1"
    by (simp add: ordersKeyed_def ex_worker_o1_def ex_confirmed_def ex_order_def)
  have h2: "map_of (orders ex_worker_o1) ''o1'' = Some ex_confirmed"
    by (simp add: ex_worker_o1_def)
  have h3: "Tif (Order' ex_confirmed) = DayTIF" by (simp add: ex_confirmed_def ex_order_def)
  have h3': "fixedZone (loc (Time (Order' ex_confirmed)))"
    by (simp add: ex_confirmed_def ex_order_def utc_def UTC_def fixedZone_def)
  have h4: "isActive ex_confirmed" by (simp add: ex_confirmed_def isActive_def)
  have h5: "getExpirationTime ex_confirmed = Inr (utc 1705363200000000000)"
    by (simp add: ex_eval)
  have h6: "dueOn (ex_tick_event 1705397400000000000) ex_confirmed (utc 1705363200000000000)"
    by (simp add: dueOn_def ex_eval)
  have run: "findExecutions ex_worker_o1 (ex_tick_event 1705397400000000000) = Inr ?b'"
    by (simp add: ex_eval)
  from day_order_expires [OF h1 h2 h3 h4 h5 h6 run] h3'
  have "localNs (utc 1705363200000000000) mod dayNs = 0 \<and>
        localNs (Time (Order' ex_confirmed)) < localNs (utc 1705363200000000000) \<and>
        localNs (utc 1705363200000000000) \<le> localNs (Time (Order' ex_confirmed)) + dayNs"
    by blast
  then have "localNs (utc 1705363200000000000) mod dayNs = 0 \<and>
        localNs (Time ex_order) < localNs (utc 1705363200000000000) \<and>
        localNs (utc 1705363200000000000) \<le> localNs (Time ex_order) + dayNs"
    by (simp add: ex_confirmed_def)
  with run show ?thesis by blast
qed

lemmas ex_eval_candle =
  ex_eval ex_close_event_def ex_candle_def onCandleClose_def candleCloseStep_def
  findExecutionsOnCandleClose_def fillOnCandleCloseLimit_def fillEventOrNil_def
  dailyOrOpening_def appendOpt_def

text \<open>
  Claim C5 as stated fails in three ways. On the first tick past the expiry when the
  order has just been updated: a replace request sent 50 ms before midnight is answered
  150 ms after midnight (delay 100 ms), the first tick arrives 100 ms after midnight, the
  order is left active and no cancel event is produced. On a candle-close event whose
  time is past the expiry while the candle is stamped at the expiry: the close event of
  the daily candle of 2024-01-16, stamped at midnight, arrives at 16:00 of that day, and
  the order of the day before is filled for 10 at 99, with no cancel event. In a
  location where the clocks go forward at midnight the expiry is not a midnight: the
  order submitted at 10:00 on the eve of the change expires at 23:00 of that day.
\<close>

theorem day_order_not_due_counterexample:
  "After (utc 1705363200100000000) (utc 1705363200000000000) \<and>
   getExpirationTime ex_confirmed = Inr (utc 1705363200000000000) \<and>
   notifyAll ex_worker_o1
     [OrderReplaceRequestEvent (utc 1705363199950000000) ex_instr ''o1'' (Fin 99),
      ex_tick_event 1705363200100000000] =
     Inr (ex_worker_o1
           \<lparr>orders := [(''o1'', ex_confirmed\<lparr>StateUpdTime := utc 1705363200150000000,
                                            BrokerPrice := Fin 99\<rparr>)],
            generatedEvents := [OrderReplacedEvent (utc 1705363200150000000) ex_instr ''o1'' (Fin 99)],
            lastTickTime := utc 1705363200100000000,
            events := [ex_tick_event 1705363200100000000]\<rparr>) \<and>
   isActive (ex_confirmed\<lparr>StateUpdTime := utc 1705363200150000000, BrokerPrice := Fin 99\<rparr>) \<and>
   After (getTime (ex_close_event 1705420800000000000 1705363200000000000))
     (utc 1705363200000000000) \<and>
   notifyAll ex_worker_o1 [ex_close_event 1705420800000000000 1705363200000000000] =
     Inr (ex_worker_o1
           \<lparr>orders := [(''o1'', ex_confirmed\<lparr>BrokerState := FilledOrder, BrokerExecQty := 10\<rparr>)],
            lastCandleTime := utc 1705420800000000000,
            events := [ex_close_event 1705420800000000000 1705363200000000000,
                       OrderFillEvent (utc 1705420800000000000) ex_instr ''o1'' (Fin 99) 10]\<rparr>) \<and>
   getExpirationTime ex_zone_order = Inr \<lparr>nsec = 1725764400000000000, loc = ex_zone\<rparr> \<and>
   localNs \<lparr>nsec = 1725764400000000000, loc = ex_zone\<rparr> mod dayNs = 82800000000000"
  by (simp add: ex_eval_candle ex_zone_order_def ex_zone_def)

section \<open>Limit orders on a tick\<close>

text \<open>
  The loop bodies leave the configuration of the worker alone, and a loop over keys
  other than \<open>k\<close> leaves the order stored under \<open>k\<close> alone and generates no event for it.
\<close>

lemma applyBrokerEvent_strict:
  "applyBrokerEvent b e = Inr b' \<Longrightarrow> strictLimitOrders b' = strictLimitOrders b"
  by (cases e) (auto simp add: updOrder_def split: option.splits if_splits)

lemma addBrokerEvent_strict:
  "addBrokerEvent b e = Inr b' \<Longrightarrow> strictLimitOrders b' = strictLimitOrders b"
  by (auto simp add: addBrokerEvent_def split: sum.splits dest: applyBrokerEvent_strict)

lemma cancelByTif_config:
  assumes "cancelByTif b ord t = Inr (b', c)"
  shows "delay b' = delay b \<and> strictLimitOrders b' = strictLimitOrders b"
  using cancelByTif_cases [OF assms]
  by (auto dest: addBrokerEvent_delay addBrokerEvent_strict)

lemma tickStep_config:
  assumes "tickStep tk tick k s = Inr s'"
  shows "delay (fst s') = delay (fst s) \<and> strictLimitOrders (fst s') = strictLimitOrders (fst s)"
proof (cases s)
  case (Pair b g)
  with assms show ?thesis
    by (auto simp add: tickStep_def split: option.splits if_splits sum.splits prod.splits
        dest: cancelByTif_config)
qed

lemma orderLoop_append:
  "orderLoop step (xs @ ys) s =
     (case orderLoop step xs s of Inl p \<Rightarrow> Inl p | Inr s1 \<Rightarrow> orderLoop step ys s1)"
  by (induction xs arbitrary: s) (simp_all split: sum.splits)

lemma orderLoop_others:
  assumes frame: "\<And>k' s s'. step k' s = Inr s' \<Longrightarrow>
             \<forall>k ord. map_of (orders (fst s)) k = Some ord \<longrightarrow> Id (Order' ord) = k \<Longrightarrow>
             stepFrame k' s s'"
    and config: "\<And>k' s s'. step k' s = Inr s' \<Longrightarrow>
             delay (fst s') = delay (fst s) \<and>
             strictLimitOrders (fst s') = strictLimitOrders (fst s)"
    and run: "orderLoop step ks s = Inr s'"
    and keyed: "\<forall>k ord. map_of (orders (fst s)) k = Some ord \<longrightarrow> Id (Order' ord) = k"
    and other: "k \<notin> set ks"
  shows "map_of (orders (fst s')) k = map_of (orders (fst s)) k \<and>
         (\<exists>ys. snd s' = snd s @ ys \<and> (\<forall>e\<in>set ys. eventOrdId e \<noteq> Some k)) \<and>
         (\<forall>k ord. map_of (orders (fst s')) k = Some ord \<longrightarrow> Id (Order' ord) = k) \<and>
         delay (fst s') = delay (fst s) \<and>
         strictLimitOrders (fst s') = strictLimitOrders (fst s) \<and>
         events (fst s') = events (fst s)"
  using run keyed other
proof (induction ks arbitrary: s)
  case Nil
  then show ?case by simp
next
  case (Cons k' ks)
  from Cons.prems(1) obtain s1 where s1: "step k' s = Inr s1"
    and rest: "orderLoop step ks s1 = Inr s'"
    by (auto split: sum.splits)
  from Cons.prems(3) have ne: "k \<noteq> k'" and notin: "k \<notin> set ks" by auto
  have fr: "stepFrame k' s s1" by (rule frame [OF s1 Cons.prems(2)])
  have keyed1: "\<forall>k ord. map_of (orders (fst s1)) k = Some ord \<longrightarrow> Id (Order' ord) = k"
    by (rule stepFrame_keyed [OF fr Cons.prems(2)])
  from fr ne have m1: "map_of (orders (fst s1)) k = map_of (orders (fst s)) k"
    by (simp add: stepFrame_def)
  from fr obtain ys1 where ys1: "snd s1 = snd s @ ys1" "\<forall>e\<in>set ys1. eventOrdId e = Some k'"
    by (auto simp add: stepFrame_def)
  from fr have e1: "events (fst s1) = events (fst s)" by (simp add: stepFrame_def)
  from config [OF s1] have c1: "delay (fst s1) = delay (fst s)"
    "strictLimitOrders (fst s1) = strictLimitOrders (fst s)" by simp_all
  from Cons.IH [OF rest keyed1 notin]
  obtain ys where ih: "map_of (orders (fst s')) k = map_of (orders (fst s1)) k"
    "snd s' = snd s1 @ ys" "\<forall>e\<in>set ys. eventOrdId e \<noteq> Some k"
    "\<forall>k ord. map_of (orders (fst s')) k = Some ord \<longrightarrow> Id (Order' ord) = k"
    "delay (fst s') = delay (fst s1)"
    "strictLimitOrders (fst s') = strictLimitOrders (fst s1)"
    "events (fst s') = events (fst s1)" by blast
  have "snd s' = snd s @ (ys1 @ ys)" using ih(2) ys1(1) by simp
  moreover have "\<forall>e\<in>set (ys1 @ ys). eventOrdId e \<noteq> Some k"
    using ys1(2) ih(3) ne by auto
  ultimately have "\<exists>zs. snd s' = snd s @ zs \<and> (\<forall>e\<in>set zs. eventOrdId e \<noteq> Some k)"
    by blast
  with ih m1 e1 c1 show ?case by simp
qed

text \<open>
  The pass of the tick loop at a limit order that is looked at and has not expired: the
  worker is left as it is and the fill, if any, is appended to \<open>genEvents\<close>.
\<close>

lemma tickStep_limit:
  assumes at_k: "map_of (orders b) k = Some ord" and id: "Id (Order' ord) = k"
    and valid: "OrderValid (Order' ord)" and lim: "Order.Type (Order' ord) = LimitOrder"
    and act: "isActive ord" and lvs: "0 <s Order.Qty (Order' ord) - BrokerExecQty ord"
    and side: "Side (Order' ord) = OrderBuy \<or> Side (Order' ord) = OrderSell"
    and sym: "Symbol (Order.Ticker (Order' ord)) = Symbol tk"
    and upd: "Before (StateUpdTime ord) (Tick.Datetime tick)"
    and exp: "getExpirationTime ord = Inr x" and live: "\<not> After (Tick.Datetime tick) x"
    and trade: "TickHasTrade tick"
  shows "tickStep tk tick k (b, g) =
     Inr (b, g @
       (let lvsQty = Order.Qty (Order' ord) - BrokerExecQty ord;
            qty = (if LastSize tick <s lvsQty then LastSize tick else lvsQty)
        in if (if Side (Order' ord) = OrderBuy then flt_lt (LastPrice tick) (BrokerPrice ord)
               else flt_gt (LastPrice tick) (BrokerPrice ord))
              \<or> (flt_eq (LastPrice tick) (BrokerPrice ord) \<and> \<not> strictLimitOrders b)
           then [OrderFillEvent (genTimeRoundTrip b (Tick.Datetime tick))
                   (Order.Ticker (Order' ord)) k (BrokerPrice ord) qty]
           else []))"
proof -
  have v: "validateOrderForExecution ord LimitOrder = None"
    using valid lim act lvs
    by (auto simp add: validateOrderForExecution_def isActive_def word_sle_eq word_sless_alt)
  have c: "cancelByTif b ord (Tick.Datetime tick) = Inr (b, False)"
    using exp live by (simp add: cancelByTif_def isExpired_def)
  have same: "b\<lparr>errChan := errChan b\<rparr> = b" by simp
  from side show ?thesis
  proof
    assume "Side (Order' ord) = OrderBuy"
    with fillOnTickLimit_cases [OF valid lim act lvs trade, of b] v lim id at_k act sym upd c
    show ?thesis
      by (simp add: tickStep_def findExecutionsOnTick_def convertToList_def Let_def same)
  next
    assume "Side (Order' ord) = OrderSell"
    with fillOnTickLimit_cases [OF valid lim act lvs trade, of b] v lim id at_k act sym upd c
    show ?thesis
      by (simp add: tickStep_def findExecutionsOnTick_def convertToList_def Let_def same)
  qed
qed

lemma addBrokerEvents_append:
  "addBrokerEvents b (xs @ ys) =
     (case addBrokerEvents b xs of Inl p \<Rightarrow> Inl p | Inr b1 \<Rightarrow> addBrokerEvents b1 ys)"
  by (induction xs arbitrary: b) (simp_all split: sum.splits)

lemma addBrokerEvents_generated:
  "addBrokerEvents b es = Inr b' \<Longrightarrow>
     generatedEvents b' = generatedEvents b @ es \<and> events b' = events b"
proof (induction es arbitrary: b)
  case Nil
  then show ?case by simp
next
  case (Cons e es)
  from Cons.prems obtain b1 where b1: "addBrokerEvent b e = Inr b1"
    and rest: "addBrokerEvents b1 es = Inr b'" by (auto split: sum.splits)
  from addBrokerEvent_frame [OF b1] Cons.IH [OF rest] show ?case by simp
qed

lemma matchOrders_limit:
  fixes b :: simBrokerWorker and ord :: simBrokerOrder and tick :: Tick
  defines "lvsQty \<equiv> Order.Qty (Order' ord) - BrokerExecQty ord"
  defines "qty \<equiv> (if LastSize tick <s lvsQty then LastSize tick else lvsQty)"
  defines "out \<equiv>
     (if (if Side (Order' ord) = OrderBuy then flt_lt (LastPrice tick) (BrokerPrice ord)
          else flt_gt (LastPrice tick) (BrokerPrice ord))
         \<or> (flt_eq (LastPrice tick) (BrokerPrice ord) \<and> \<not> strictLimitOrders b)
      then [OrderFillEvent (genTimeRoundTrip b (Tick.Datetime tick))
              (Order.Ticker (Order' ord)) (Id (Order' ord)) (BrokerPrice ord) qty]
      else [])"
  assumes keyed: "\<forall>k ord. map_of (orders b) k = Some ord \<longrightarrow> Id (Order' ord) = k"
    and at_k: "map_of (orders b) k = Some ord"
    and valid: "OrderValid (Order' ord)" and lim: "Order.Type (Order' ord) = LimitOrder"
    and act: "isActive ord" and lvs: "0 <s Order.Qty (Order' ord) - BrokerExecQty ord"
    and side: "Side (Order' ord) = OrderBuy \<or> Side (Order' ord) = OrderSell"
    and sym: "Symbol (Order.Ticker (Order' ord)) = Symbol tk"
    and upd: "Before (StateUpdTime ord) (Tick.Datetime tick)"
    and exp: "getExpirationTime ord = Inr x" and live: "\<not> After (Tick.Datetime tick) x"
    and trade: "TickHasTrade tick"
    and run: "matchOrders b (NewTickEvent t tk tick) = Inr (b2, gen)"
  shows "map_of (orders b2) k = Some ord \<and> events b2 = events b \<and>
         filter (\<lambda>e. eventOrdId e = Some k) gen = out"
proof -
  let ?step = "tickStep tk tick"
  from keyed at_k have id: "Id (Order' ord) = k" by simp
  from at_k have "k \<in> set (orderKeys b)"
    by (auto simp add: orderKeys_def dest: map_of_SomeD intro: rev_image_eqI)
  then obtain pre post where ks: "orderKeys b = pre @ k # post" by (auto dest: split_list)
  have "distinct (orderKeys b)" by (simp add: orderKeys_def)
  with ks have npre: "k \<notin> set pre" and npost: "k \<notin> set post" by auto
  from run have loop: "orderLoop ?step (pre @ k # post) (b, []) = Inr (b2, gen)"
    by (simp add: matchOrders_def ks)
  then obtain s1 where r1: "orderLoop ?step pre (b, []) = Inr s1"
    and r2: "orderLoop ?step (k # post) s1 = Inr (b2, gen)"
    by (auto simp add: orderLoop_append split: sum.splits)
  have keyed0: "\<forall>k ord. map_of (orders (fst (b, [] :: event list))) k = Some ord
                  \<longrightarrow> Id (Order' ord) = k"
    using keyed by simp
  have o1: "map_of (orders (fst s1)) k = map_of (orders (fst (b, [] :: event list))) k \<and>
         (\<exists>ys. snd s1 = snd (b, [] :: event list) @ ys \<and> (\<forall>e\<in>set ys. eventOrdId e \<noteq> Some k)) \<and>
         (\<forall>k ord. map_of (orders (fst s1)) k = Some ord \<longrightarrow> Id (Order' ord) = k) \<and>
         delay (fst s1) = delay (fst (b, [] :: event list)) \<and>
         strictLimitOrders (fst s1) = strictLimitOrders (fst (b, [] :: event list)) \<and>
         events (fst s1) = events (fst (b, [] :: event list))"
  proof (rule orderLoop_others [where step = ?step and ks = pre])
    fix k' s s'
    assume "?step k' s = Inr s'"
      and "\<forall>k ord. map_of (orders (fst s)) k = Some ord \<longrightarrow> Id (Order' ord) = k"
    then show "stepFrame k' s s'" by (rule tickStep_frame)
  next
    fix k' s s'
    assume "?step k' s = Inr s'"
    then show "delay (fst s') = delay (fst s) \<and>
      strictLimitOrders (fst s') = strictLimitOrders (fst s)" by (rule tickStep_config)
  qed (rule r1 keyed0 npre)+
  from o1 have p1: "map_of (orders (fst s1)) k = Some ord" using at_k by simp
  from o1 have g1: "\<forall>e\<in>set (snd s1). eventOrdId e \<noteq> Some k" by auto
  from o1 have keyed1: "\<forall>k ord. map_of (orders (fst s1)) k = Some ord \<longrightarrow> Id (Order' ord) = k"
    by blast
  from o1 have c1: "delay (fst s1) = delay b" "strictLimitOrders (fst s1) = strictLimitOrders b"
    by simp_all
  from o1 have e1: "events (fst s1) = events b" by simp
  have gt: "genTimeRoundTrip (fst s1) = genTimeRoundTrip b"
    using c1(1) by (simp add: genTimeRoundTrip_def fun_eq_iff)
  have "?step k (fst s1, snd s1) = Inr (fst s1, snd s1 @ out)"
    using tickStep_limit [OF p1 id valid lim act lvs side sym upd exp live trade, of "snd s1"]
    by (simp add: out_def qty_def lvsQty_def Let_def gt c1(2) id)
  then have st: "?step k s1 = Inr (fst s1, snd s1 @ out)" by simp
  from r2 st have r3: "orderLoop ?step post (fst s1, snd s1 @ out) = Inr (b2, gen)" by simp
  have keyed2: "\<forall>k ord. map_of (orders (fst (fst s1, snd s1 @ out))) k = Some ord
                  \<longrightarrow> Id (Order' ord) = k"
    using keyed1 by simp
  have o2: "map_of (orders (fst (b2, gen))) k = map_of (orders (fst (fst s1, snd s1 @ out))) k \<and>
         (\<exists>ys. snd (b2, gen) = snd (fst s1, snd s1 @ out) @ ys
               \<and> (\<forall>e\<in>set ys. eventOrdId e \<noteq> Some k)) \<and>
         (\<forall>k ord. map_of (orders (fst (b2, gen))) k = Some ord \<longrightarrow> Id (Order' ord) = k) \<and>
         delay (fst (b2, gen)) = delay (fst (fst s1, snd s1 @ out)) \<and>
         strictLimitOrders (fst (b2, gen)) = strictLimitOrders (fst (fst s1, snd s1 @ out)) \<and>
         events (fst (b2, gen)) = events (fst (fst s1, snd s1 @ out))"
  proof (rule orderLoop_others [where step = ?step and ks = post])
    fix k' s s'
    assume "?step k' s = Inr s'"
      and "\<forall>k ord. map_of (orders (fst s)) k = Some ord \<longrightarrow> Id (Order' ord) = k"
    then show "stepFrame k' s s'" by (rule tickStep_frame)
  next
    fix k' s s'
    assume "?step k' s = Inr s'"
    then show "delay (fst s') = delay (fst s) \<and>
      strictLimitOrders (fst s') = strictLimitOrders (fst s)" by (rule tickStep_config)
  qed (rule r3 keyed2 npost)+
  from o2 p1 have p2: "map_of (orders b2) k = Some ord" by simp
  from o2 obtain ys2 where g2: "gen = snd s1 @ out @ ys2" "\<forall>e\<in>set ys2. eventOrdId e \<noteq> Some k"
    by auto
  from o2 e1 have e2: "events b2 = events b" by simp
  have f1: "filter (\<lambda>e. eventOrdId e = Some k) (snd s1) = []"
    using g1 by (simp add: filter_empty_conv)
  have f2: "filter (\<lambda>e. eventOrdId e = Some k) ys2 = []"
    using g2(2) by (simp add: filter_empty_conv)
  have fo: "filter (\<lambda>e. eventOrdId e = Some k) out = out"
    by (simp add: out_def id)
  from p2 e2 show ?thesis by (simp add: g2(1) f1 f2 fo)
qed

lemma addBrokerEvent_fill:
  assumes "map_of (orders b) k = Some ord"
    and "addBrokerEvent b (OrderFillEvent t tk k price qty) = Inr b'"
  shows "map_of (orders b') k =
           Some (ord\<lparr>BrokerState := (if qty = Order.Qty (Order' ord) - BrokerExecQty ord
                                      then FilledOrder else PartialFilledOrder),
                     BrokerExecQty := BrokerExecQty ord + qty\<rparr>)"
  using assms
  by (auto simp add: addBrokerEvent_def map_of_updOrder split: if_splits)

text \<open>
  Claim C6, as amended. In tick mode, take a worker that holds every order under the
  order's own id, as every worker started with an empty map does, and an order of type
  Limit, Buy or Sell, that it holds as valid and active (Confirmed or PartialFilled) with
  a positive leaves quantity, and a tick event for the symbol of the order whose tick has
  a trade. Suppose that the last state update of the order is before the \<open>Datetime\<close> of
  the tick and that the order has not expired at the \<open>Datetime\<close> of the tick. Then a run
  of \<open>findExecutions\<close> on the event that returns fills the order exactly when the limit
  is crossed: for a Buy order when last < limit, or last = limit and strict-limit is
  off; for a Sell order when last > limit, or last = limit and strict-limit is off. The
  fill is an \<open>OrderFillEvent\<close> at the limit price (the working price of the order),
  stamped one round trip after the \<open>Datetime\<close> of the tick, for the minimum of the leaves
  quantity and the last size of the tick. It is the only event that the matching of
  that run generates for the order; it is sent on that run or kept in the buffer of
  generated events; the order becomes Filled when the quantity is the leaves quantity
  and PartialFilled otherwise, and the quantity is added to its executed quantity. When
  the limit is not crossed, in particular when last = limit with strict-limit on, the
  matching generates no event for the order and the order is left as it was.
\<close>

theorem findExecutions_limit_on_tick:
  assumes keyed: "ordersKeyed b"
    and at_k: "map_of (orders b) k = Some ord"
    and valid: "OrderValid (Order' ord)" and lim: "Order.Type (Order' ord) = LimitOrder"
    and act: "isActive ord" and lvs: "0 <s Order.Qty (Order' ord) - BrokerExecQty ord"
    and side: "Side (Order' ord) = OrderBuy \<or> Side (Order' ord) = OrderSell"
    and sym: "Symbol (Order.Ticker (Order' ord)) = Symbol tk"
    and upd: "Before (StateUpdTime ord) (Tick.Datetime tick)"
    and exp: "getExpirationTime ord = Inr x" and live: "\<not> After (Tick.Datetime tick) x"
    and trade: "TickHasTrade tick"
    and run: "findExecutions b (NewTickEvent t tk tick) = Inr b'"
  shows "let lvsQty = Order.Qty (Order' ord) - BrokerExecQty ord;
             qty = (if LastSize tick <s lvsQty then LastSize tick else lvsQty);
             fillE = OrderFillEvent (genTimeRoundTrip b (Tick.Datetime tick))
                       (Order.Ticker (Order' ord)) k (BrokerPrice ord) qty;
             crossed = ((if Side (Order' ord) = OrderBuy
                         then flt_lt (LastPrice tick) (BrokerPrice ord)
                         else flt_gt (LastPrice tick) (BrokerPrice ord))
                        \<or> (flt_eq (LastPrice tick) (BrokerPrice ord) \<and> \<not> strictLimitOrders b))
         in sint qty = min (sint lvsQty) (sint (LastSize tick)) \<and>
            (crossed \<longrightarrow>
               (\<exists>sent. events b' = events b @ sent \<and>
                        fillE \<in> set sent \<union> set (generatedEvents b')) \<and>
               map_of (orders b') k =
                 Some (ord\<lparr>BrokerState := (if qty = lvsQty then FilledOrder
                                            else PartialFilledOrder),
                           BrokerExecQty := BrokerExecQty ord + qty\<rparr>)) \<and>
            (\<not> crossed \<longrightarrow> map_of (orders b') k = Some ord) \<and>
            (\<forall>b2 genEvents.
               matchOrders (b\<lparr>generatedEvents := generatedEvents b @ [NewTickEvent t tk tick]\<rparr>)
                 (NewTickEvent t tk tick) = Inr (b2, genEvents) \<longrightarrow>
               filter (\<lambda>e. eventOrdId e = Some k) genEvents = (if crossed then [fillE] else []))"
proof -
  let ?md = "NewTickEvent t tk tick"
  let ?b1 = "b\<lparr>generatedEvents := generatedEvents b @ [?md]\<rparr>"
  define lvsQty where "lvsQty = Order.Qty (Order' ord) - BrokerExecQty ord"
  define qty where "qty = (if LastSize tick <s lvsQty then LastSize tick else lvsQty)"
  define fillE where "fillE = OrderFillEvent (genTimeRoundTrip b (Tick.Datetime tick))
                       (Order.Ticker (Order' ord)) k (BrokerPrice ord) qty"
  define crossed where "crossed = ((if Side (Order' ord) = OrderBuy
                         then flt_lt (LastPrice tick) (BrokerPrice ord)
                         else flt_gt (LastPrice tick) (BrokerPrice ord))
                        \<or> (flt_eq (LastPrice tick) (BrokerPrice ord) \<and> \<not> strictLimitOrders b))"
  have id: "Id (Order' ord) = k" using ordersKeyed_map_of [OF keyed] at_k by simp
  have k1: "\<forall>k ord. map_of (orders ?b1) k = Some ord \<longrightarrow> Id (Order' ord) = k"
    using ordersKeyed_map_of [OF keyed] by simp
  have a1: "map_of (orders ?b1) k = Some ord" using at_k by simp
  have gt: "genTimeRoundTrip ?b1 = genTimeRoundTrip b"
    by (simp add: genTimeRoundTrip_def fun_eq_iff)
  have mo: "map_of (orders b2) k = Some ord \<and> events b2 = events b \<and>
            filter (\<lambda>e. eventOrdId e = Some k) gen = (if crossed then [fillE] else [])"
    if "matchOrders ?b1 ?md = Inr (b2, gen)" for b2 gen
    using matchOrders_limit [OF k1 a1 valid lim act lvs side sym upd exp live trade that]
    by (simp add: crossed_def fillE_def qty_def lvsQty_def gt id)
  have ne: "orders b \<noteq> []" using at_k by auto
  from run ne obtain b2 gen where m: "matchOrders ?b1 ?md = Inr (b2, gen)"
    by (auto simp add: findExecutions_def Let_def split: sum.splits)
  from run ne m obtain b3 where a: "addBrokerEvents b2 gen = Inr b3"
    by (auto simp add: findExecutions_def Let_def split: sum.splits)
  from mo [OF m] have m2: "map_of (orders b2) k = Some ord" and e2: "events b2 = events b"
    and f2: "filter (\<lambda>e. eventOrdId e = Some k) gen = (if crossed then [fillE] else [])"
    by simp_all
  from addBrokerEvents_generated [OF a] e2
  have g3: "generatedEvents b3 = generatedEvents b2 @ gen" and e3: "events b3 = events b"
    by simp_all
  let ?sorted = "sortEvents (generatedEvents b3)"
  let ?send = "filter (\<lambda>e. \<not> After (getTime e) (getTime ?md)) ?sorted"
  let ?left = "filter (\<lambda>e. After (getTime e) (getTime ?md)) ?sorted"
  from run ne m a have b': "b' = b3\<lparr>generatedEvents := ?left, events := events b3 @ ?send\<rparr>"
    by (simp add: findExecutions_def Let_def releaseLoop_filter)
  have c0: "sint qty = min (sint lvsQty) (sint (LastSize tick))"
    by (simp add: qty_def word_sless_alt min_def)
  have c1: "(\<exists>sent. events b' = events b @ sent \<and>
                        fillE \<in> set sent \<union> set (generatedEvents b')) \<and>
               map_of (orders b') k =
                 Some (ord\<lparr>BrokerState := (if qty = lvsQty then FilledOrder
                                            else PartialFilledOrder),
                           BrokerExecQty := BrokerExecQty ord + qty\<rparr>)" if cr: crossed
  proof -
    from f2 cr have "filter (\<lambda>e. eventOrdId e = Some k) gen = [fillE]" by simp
    then obtain us vs where gen: "gen = us @ fillE # vs"
      and us: "\<forall>u\<in>set us. eventOrdId u \<noteq> Some k"
      and vs: "filter (\<lambda>e. eventOrdId e = Some k) vs = []"
      by (auto simp add: filter_eq_Cons_iff)
    from vs have vs': "\<forall>e\<in>set vs. eventOrdId e \<noteq> Some k" by (simp add: filter_empty_conv)
    from a gen obtain bu where bu: "addBrokerEvents b2 us = Inr bu"
      and r: "addBrokerEvents bu (fillE # vs) = Inr b3"
      by (auto simp add: addBrokerEvents_append split: sum.splits)
    from r obtain bf where bf: "addBrokerEvent bu fillE = Inr bf"
      and bv: "addBrokerEvents bf vs = Inr b3" by (auto split: sum.splits)
    from addBrokerEvents_frame [OF bu us] m2 have mu: "map_of (orders bu) k = Some ord" by simp
    from bf have bf': "addBrokerEvent bu (OrderFillEvent (genTimeRoundTrip b (Tick.Datetime tick))
                       (Order.Ticker (Order' ord)) k (BrokerPrice ord) qty) = Inr bf"
      by (simp add: fillE_def)
    from addBrokerEvent_fill [OF mu bf']
    have mf: "map_of (orders bf) k =
           Some (ord\<lparr>BrokerState := (if qty = lvsQty then FilledOrder else PartialFilledOrder),
                     BrokerExecQty := BrokerExecQty ord + qty\<rparr>)"
      by (simp add: lvsQty_def)
    from addBrokerEvents_frame [OF bv vs'] mf
    have m3: "map_of (orders b3) k =
           Some (ord\<lparr>BrokerState := (if qty = lvsQty then FilledOrder else PartialFilledOrder),
                     BrokerExecQty := BrokerExecQty ord + qty\<rparr>)" by simp
    have "fillE \<in> set (generatedEvents b3)" by (simp add: g3 gen)
    then have evs: "fillE \<in> set ?sorted" by (simp add: sortEvents_def)
    have s1: "events b' = events b @ ?send" by (simp add: b' e3)
    have s2: "fillE \<in> set ?send \<union> set (generatedEvents b')" using evs by (auto simp add: b')
    have s3: "map_of (orders b') k =
           Some (ord\<lparr>BrokerState := (if qty = lvsQty then FilledOrder else PartialFilledOrder),
                     BrokerExecQty := BrokerExecQty ord + qty\<rparr>)"
      using m3 by (simp add: b')
    from s1 s2 s3 show ?thesis by blast
  qed
  have c2: "map_of (orders b') k = Some ord" if ncr: "\<not> crossed"
  proof -
    from f2 ncr have "\<forall>e\<in>set gen. eventOrdId e \<noteq> Some k" by (simp add: filter_empty_conv)
    from addBrokerEvents_frame [OF a this] m2 show ?thesis by (simp add: b')
  qed
  have c3: "\<forall>b2 genEvents. matchOrders ?b1 ?md = Inr (b2, genEvents) \<longrightarrow>
               filter (\<lambda>e. eventOrdId e = Some k) genEvents = (if crossed then [fillE] else [])"
    using mo by blast
  from c0 c1 c2 c3 show ?thesis
    unfolding Let_def lvsQty_def [symmetric] qty_def [symmetric] fillE_def [symmetric]
      crossed_def [symmetric]
    by blast
qed

text \<open>
  The example order (Buy, limit 100, 10 lots, confirmed at 14:30:00.2) on a tick of the
  same day at 14:46:40: at 99 for 3 lots it is filled for 3 at 100 and becomes
  PartialFilled, the fill being stamped 200 ms after the tick; at 101 nothing happens
  to it.
\<close>

theorem findExecutions_limit_on_tick_witness:
  "findExecutions ex_worker_o1 (ex_trade_event 1705330000000000000 99 3) =
     Inr (ex_worker_o1
           \<lparr>orders := [(''o1'', ex_confirmed\<lparr>BrokerState := PartialFilledOrder,
                                            BrokerExecQty := 3\<rparr>)],
            generatedEvents :=
              [OrderFillEvent (utc 1705330000200000000) ex_instr ''o1'' (Fin 100) 3],
            events := [ex_trade_event 1705330000000000000 99 3]\<rparr>) \<and>
   findExecutions ex_worker_o1 (ex_trade_event 1705330000000000000 101 3) =
     Inr (ex_worker_o1\<lparr>events := [ex_trade_event 1705330000000000000 101 3]\<rparr>)"
proof -
  let ?T = "1705330000000000000 :: int"
  let ?r1 = "ex_worker_o1
           \<lparr>orders := [(''o1'', ex_confirmed\<lparr>BrokerState := PartialFilledOrder,
                                            BrokerExecQty := 3\<rparr>)],
            generatedEvents :=
              [OrderFillEvent (utc 1705330000200000000) ex_instr ''o1'' (Fin 100) 3],
            events := [ex_trade_event ?T 99 3]\<rparr>"
  let ?r2 = "ex_worker_o1\<lparr>events := [ex_trade_event ?T 101 3]\<rparr>"
  have h1: "ordersKeyed ex_worker_o1"
    by (simp add: ordersKeyed_def ex_worker_o1_def ex_confirmed_def ex_order_def)
  have h2: "map_of (orders ex_worker_o1) ''o1'' = Some ex_confirmed"
    by (simp add: ex_worker_o1_def)
  have h3: "OrderValid (Order' ex_confirmed)" "Order.Type (Order' ex_confirmed) = LimitOrder"
    "isActive ex_confirmed" "0 <s Order.Qty (Order' ex_confirmed) - BrokerExecQty ex_confirmed"
    "Side (Order' ex_confirmed) = OrderBuy \<or> Side (Order' ex_confirmed) = OrderSell"
    "Symbol (Order.Ticker (Order' ex_confirmed)) = Symbol ex_instr"
    by (simp_all add: ex_confirmed_def ex_order_def isActive_def word_sless_alt)
  have h4: "Before (StateUpdTime ex_confirmed) (Tick.Datetime (ex_tick ?T p s))" for p s
    by (simp add: ex_confirmed_def ex_tick_def utc_def Before_def)
  have h5: "getExpirationTime ex_confirmed = Inr (utc 1705363200000000000)"
    by (simp add: ex_eval)
  have h6: "\<not> After (Tick.Datetime (ex_tick ?T p s)) (utc 1705363200000000000)" for p s
    by (simp add: ex_tick_def utc_def After_def)
  have h7: "TickHasTrade (ex_tick ?T p s)" for p s by (simp add: ex_tick_def)
  have run1: "findExecutions ex_worker_o1 (NewTickEvent (utc ?T) ex_instr (ex_tick ?T (Fin 99) 3))
                = Inr ?r1"
    by (simp add: ex_eval ex_trade_event_def)
  have run2: "findExecutions ex_worker_o1 (NewTickEvent (utc ?T) ex_instr (ex_tick ?T (Fin 101) 3))
                = Inr ?r2"
    by (simp add: ex_eval ex_trade_event_def)
  note r = findExecutions_limit_on_tick [OF h1 h2 h3 h4 h5 h6 h7]
  from r [OF run1] r [OF run2] run1 run2 show ?thesis
    by (simp add: ex_trade_event_def)
qed

text \<open>
  Claim C6 as stated fails for an active Buy Limit order at 100 and a tick with a trade
  at 99 in two ways. The order is submitted at 14:30:00 and a tick at 14:30:00.150 makes
  the worker handle the request: the order is Confirmed as of 14:30:00.200, after the
  tick, and the tick does not fill it. The order is held Confirmed and the tick comes on
  the next day at 09:30: the order is canceled as of midnight and not filled.
\<close>

theorem limit_order_not_matched_counterexample:
  "notifyAll ex_worker
     [NewOrderEvent (utc 1705329000000000000) ex_instr ex_order,
      ex_trade_event 1705329000150000000 99 20] =
     Inr (ex_worker_o1
           \<lparr>generatedEvents :=
              [OrderConfirmationEvent (utc 1705329000200000000) ex_instr ''o1''],
            lastTickTime := utc 1705329000150000000,
            events := [ex_trade_event 1705329000150000000 99 20]\<rparr>) \<and>
   findExecutions ex_worker_o1 (ex_trade_event 1705397400000000000 99 20) =
     Inr (ex_worker_o1
           \<lparr>orders := [(''o1'', ex_confirmed\<lparr>BrokerState := CanceledOrder,
                                            StateUpdTime := utc 1705363200000000000\<rparr>)],
            events := [OrderCancelEvent (utc 1705363200000000000) ex_instr ''o1'',
                       ex_trade_event 1705397400000000000 99 20]\<rparr>) \<and>
   isActive ex_confirmed \<and> Side (Order' ex_confirmed) = OrderBuy \<and>
   Order.Type (Order' ex_confirmed) = LimitOrder \<and>
   flt_lt (Fin 99) (BrokerPrice ex_confirmed)"
  by (simp add: ex_eval ex_trade_event_def)

end
